theory Spec2Isabelle
  imports Complex_Main "HOL-Library.Log_Nat" "HOL-Library.Multiset"
begin

section \<open>JavaScript numbers\<close>

text \<open>
  The route handlers compute with JavaScript numbers, which are IEEE 754 binary64 values.
  Counters are integers far below \<open>2^53\<close>, where binary64 addition is exact, so they are
  modelled as \<open>int\<close>. Rates are quotients and are not exact: every division, multiplication
  and addition on them is the exact rational result rounded to the nearest binary64 value,
  ties to the even significand. \<open>fl\<close> is that rounding on the rationals, for values in the
  normal range (no overflow to infinity, no subnormals), which is where percentages of
  integer counters live.
\<close>

definition pow2 :: "int \<Rightarrow> rat" where
  "pow2 k = (if 0 \<le> k then 2 ^ nat k else 1 / 2 ^ nat (- k))"

text \<open>The binary exponent of a positive rational: \<open>pow2 (ilog2 x) \<le> x < pow2 (ilog2 x + 1)\<close>.\<close>

definition ilog2 :: "rat \<Rightarrow> int" where
  "ilog2 x =
     (let (n, d) = quotient_of x;
          k = bitlen n - bitlen d
      in if pow2 k \<le> x then k else k - 1)"

definition round_half_even :: "rat \<Rightarrow> int" where
  "round_half_even x =
     (let f = \<lfloor>x\<rfloor>; r = x - of_int f
      in if r < 1 / 2 then f
         else if 1 / 2 < r then f + 1
         else if even f then f else f + 1)"

text \<open>A positive rational rounded to 53 significant bits.\<close>

definition fl_pos :: "rat \<Rightarrow> rat" where
  "fl_pos x = (let e = ilog2 x - 52 in of_int (round_half_even (x / pow2 e)) * pow2 e)"

definition fl :: "rat \<Rightarrow> rat" where
  "fl x = (if x = 0 then 0 else if 0 < x then fl_pos x else - fl_pos (- x))"

text \<open>The unit roundoff of binary64.\<close>

definition roundoff :: rat where
  "roundoff = 1 / 2 ^ 53"

text \<open>
  \<open>Number(x.toFixed(2))\<close>: \<open>toFixed\<close> takes the integer \<open>n\<close> for which \<open>n / 100\<close> is closest
  to the exact value of the binary64 number \<open>x\<close>, the larger \<open>n\<close> of two equally close ones,
  after setting the sign aside. The decimal it prints is what the response and the
  DECIMAL(5,2) column hold, so the result is kept as that decimal.
\<close>

definition toFixed2 :: "rat \<Rightarrow> rat" where
  "toFixed2 x =
     (if x < 0 then - (of_int \<lfloor>- x * 100 + 1 / 2\<rfloor> / 100)
      else of_int \<lfloor>x * 100 + 1 / 2\<rfloor> / 100)"

section \<open>Tables\<close>

type_synonym uuid = string

text \<open>A DATE is a day number; \<open>new Date().toISOString().split('T')[0]\<close> is the UTC day.\<close>

type_synonym date = nat

text \<open>Table \<open>post_analytics\<close> (one row per tenant, scheduled post, platform and day).\<close>

record post_analytics_row =
  row_id :: uuid
  tenant_id :: uuid
  content_item_id :: "uuid option"
  scheduled_post_id :: "uuid option"
  platform :: string
  views :: int
  likes :: int
  comments :: int
  shares :: int
  clicks :: int
  impressions :: int
  engagement_rate :: rat
  click_through_rate :: rat
  unique_viewers :: int
  reach :: int
  date :: date

datatype json = JNull | JBool bool | JNum int | JStr string
  | JArr "json list" | JObj "(string \<times> json) list"

text \<open>Table \<open>analytics_events\<close>, the append-only log.\<close>

record analytics_event =
  event_id :: uuid
  ev_tenant_id :: uuid
  ev_content_item_id :: "uuid option"
  ev_scheduled_post_id :: "uuid option"
  event_type :: string
  ev_platform :: string
  event_value :: int
  event_metadata :: "(string \<times> json) list"
  external_event_id :: "string option"

record content_item =
  ci_type :: string
  text_content :: string
  ci_platform :: string
  ci_created_at :: string

record scheduled_post =
  sp_content_item_id :: "uuid option"
  scheduled_at :: string
  published_at :: "string option"
  status :: string

text \<open>
  The store as the handlers see it. \<open>tenant_users\<close> holds (tenant, user) pairs;
  \<open>content_items\<close> and \<open>scheduled_posts\<close> are looked up by primary key only.
  Of the schema of \<open>post_analytics\<close>, the primary key, the UNIQUE constraint and the column
  types INTEGER, DECIMAL(5,2) and VARCHAR(50) are modelled (at the insert and the update,
  below): a statement that breaks one of them is refused as a whole. The references to
  \<open>tenants\<close>, \<open>content_items\<close> and \<open>scheduled_posts\<close> are not checked at a write of
  \<open>post_analytics\<close>: the handler calls the updater only after it has inserted the event,
  whose row refers to the same tenant and scheduled post, and the content item is copied
  from the scheduled post's row. Row-level security is left out: the role of the client
  that the handlers create is not part of the sources.
\<close>

record db =
  tenant_users :: "(uuid \<times> uuid) list"
  analytics_events :: "analytics_event list"
  post_analytics :: "post_analytics_row list"
  content_items :: "uuid \<rightharpoonup> content_item"
  scheduled_posts :: "uuid \<rightharpoonup> scheduled_post"

text \<open>\<open>.single()\<close>: the row when exactly one row matched, otherwise no data.\<close>

definition single_row :: "'a list \<Rightarrow> 'a option" where
  "single_row xs = (case xs of [x] \<Rightarrow> Some x | _ \<Rightarrow> None)"

text \<open>A JavaScript string is truthy when it is not empty.\<close>

definition truthy :: "string \<Rightarrow> bool" where
  "truthy s = (s \<noteq> [])"

definition tenantUser :: "db \<Rightarrow> uuid \<Rightarrow> uuid \<Rightarrow> (uuid \<times> uuid) option" where
  "tenantUser d tenantId userId =
     single_row [tu \<leftarrow> tenant_users d. fst tu = tenantId \<and> snd tu = userId]"

section \<open>The aggregate updater\<close>

text \<open>The \<open>updates\<close> object: the columns the statement will set.\<close>

record updates =
  u_views :: "int option"
  u_likes :: "int option"
  u_comments :: "int option"
  u_shares :: "int option"
  u_clicks :: "int option"
  u_impressions :: "int option"
  u_engagement_rate :: "rat option"
  u_click_through_rate :: "rat option"

definition no_updates :: updates where
  "no_updates = \<lparr>u_views = None, u_likes = None, u_comments = None, u_shares = None,
     u_clicks = None, u_impressions = None, u_engagement_rate = None,
     u_click_through_rate = None\<rparr>"

text \<open>\<open>{ ...existing, ...updates }\<close>, which is also what \<open>update(updates)\<close> does to a row.\<close>

definition spread :: "post_analytics_row \<Rightarrow> updates \<Rightarrow> post_analytics_row" where
  "spread r u = r
     \<lparr>views := (case u_views u of Some v \<Rightarrow> v | None \<Rightarrow> views r),
      likes := (case u_likes u of Some v \<Rightarrow> v | None \<Rightarrow> likes r),
      comments := (case u_comments u of Some v \<Rightarrow> v | None \<Rightarrow> comments r),
      shares := (case u_shares u of Some v \<Rightarrow> v | None \<Rightarrow> shares r),
      clicks := (case u_clicks u of Some v \<Rightarrow> v | None \<Rightarrow> clicks r),
      impressions := (case u_impressions u of Some v \<Rightarrow> v | None \<Rightarrow> impressions r),
      engagement_rate :=
        (case u_engagement_rate u of Some v \<Rightarrow> v | None \<Rightarrow> engagement_rate r),
      click_through_rate :=
        (case u_click_through_rate u of Some v \<Rightarrow> v | None \<Rightarrow> click_through_rate r)\<rparr>"

text \<open>\<open>existing?.views || 0\<close> and its five siblings.\<close>

definition or0 :: "(post_analytics_row \<Rightarrow> int) \<Rightarrow> post_analytics_row option \<Rightarrow> int" where
  "or0 col existing = (case existing of None \<Rightarrow> 0 | Some r \<Rightarrow> col r)"

text \<open>The \<open>switch (eventType)\<close>; a type outside the six cases sets nothing.\<close>

definition increment :: "string \<Rightarrow> post_analytics_row option \<Rightarrow> int \<Rightarrow> updates" where
  "increment eventType existing eventValue =
     (if eventType = ''view'' then
        no_updates\<lparr>u_views := Some (or0 views existing + eventValue)\<rparr>
      else if eventType = ''like'' then
        no_updates\<lparr>u_likes := Some (or0 likes existing + eventValue)\<rparr>
      else if eventType = ''comment'' then
        no_updates\<lparr>u_comments := Some (or0 comments existing + eventValue)\<rparr>
      else if eventType = ''share'' then
        no_updates\<lparr>u_shares := Some (or0 shares existing + eventValue)\<rparr>
      else if eventType = ''click'' then
        no_updates\<lparr>u_clicks := Some (or0 clicks existing + eventValue)\<rparr>
      else if eventType = ''impression'' then
        no_updates\<lparr>u_impressions := Some (or0 impressions existing + eventValue)\<rparr>
      else no_updates)"

text \<open>
  \<open>impressions > 0 ? (x / impressions) * 100 : 0\<close>, then \<open>Number(rate.toFixed(2))\<close>:
  the division is rounded to binary64, then the product with 100 is.
\<close>

definition rate :: "int \<Rightarrow> int \<Rightarrow> rat" where
  "rate x imp =
     toFixed2 (if 0 < imp then fl (fl (of_int x / of_int imp) * 100) else 0)"

text \<open>The select of the current aggregate row.\<close>

definition existing_row ::
  "db \<Rightarrow> uuid \<Rightarrow> uuid \<Rightarrow> string \<Rightarrow> date \<Rightarrow> post_analytics_row option" where
  "existing_row d tenantId scheduledPostId pf today =
     single_row [r \<leftarrow> post_analytics d.
       tenant_id r = tenantId \<and> scheduled_post_id r = Some scheduledPostId \<and>
       platform r = pf \<and> date r = today]"

text \<open>
  The column types of \<open>post_analytics\<close>. The six counters, \<open>unique_viewers\<close> and \<open>reach\<close>
  are INTEGER, a signed number of 32 bits. The two rates are DECIMAL(5,2): the value is
  rounded to two decimals and must then have at most three digits before the point, so it
  fits when its absolute value is below 999.995; for a number of hundredths, which is all
  the updater writes, that is below 1000. \<open>platform\<close> is VARCHAR(50).
\<close>

definition fits_integer :: "int \<Rightarrow> bool" where
  "fits_integer v = (- (2 ^ 31) \<le> v \<and> v < 2 ^ 31)"

definition fits_decimal_5_2 :: "rat \<Rightarrow> bool" where
  "fits_decimal_5_2 x = (\<bar>x\<bar> < 999995 / 1000)"

definition row_fits :: "post_analytics_row \<Rightarrow> bool" where
  "row_fits r =
     (length (platform r) \<le> 50 \<and>
      fits_integer (views r) \<and> fits_integer (likes r) \<and> fits_integer (comments r) \<and>
      fits_integer (shares r) \<and> fits_integer (clicks r) \<and> fits_integer (impressions r) \<and>
      fits_decimal_5_2 (engagement_rate r) \<and> fits_decimal_5_2 (click_through_rate r) \<and>
      fits_integer (unique_viewers r) \<and> fits_integer (reach r))"

text \<open>The columns that an \<open>updates\<close> object sets; a column it does not set is not checked.\<close>

definition fits_opt :: "('a \<Rightarrow> bool) \<Rightarrow> 'a option \<Rightarrow> bool" where
  "fits_opt fits x = (case x of None \<Rightarrow> True | Some v \<Rightarrow> fits v)"

definition updates_fit :: "updates \<Rightarrow> bool" where
  "updates_fit u =
     (fits_opt fits_integer (u_views u) \<and> fits_opt fits_integer (u_likes u) \<and>
      fits_opt fits_integer (u_comments u) \<and> fits_opt fits_integer (u_shares u) \<and>
      fits_opt fits_integer (u_clicks u) \<and> fits_opt fits_integer (u_impressions u) \<and>
      fits_opt fits_decimal_5_2 (u_engagement_rate u) \<and>
      fits_opt fits_decimal_5_2 (u_click_through_rate u))"

text \<open>
  The insert. The store refuses a row that does not fit the column types, and one that
  breaks the primary key or UNIQUE(tenant_id, scheduled_post_id, platform, date), under
  which rows with a NULL scheduled post never collide. A refused insert leaves the table
  as it was, and the updater does not look at the outcome.
\<close>

definition collides :: "post_analytics_row \<Rightarrow> post_analytics_row \<Rightarrow> bool" where
  "collides r n =
     (row_id r = row_id n \<or>
      (tenant_id r = tenant_id n \<and> scheduled_post_id r = scheduled_post_id n \<and>
       scheduled_post_id n \<noteq> None \<and> platform r = platform n \<and> date r = date n))"

definition insert_row :: "post_analytics_row \<Rightarrow> post_analytics_row list \<Rightarrow> post_analytics_row list" where
  "insert_row n tbl =
     (if row_fits n \<and> \<not> list_ex (\<lambda>r. collides r n) tbl then tbl @ [n] else tbl)"

text \<open>
  \<open>update(updates).eq('id', i)\<close>. The store refuses the statement when a value of \<open>updates\<close>
  does not fit its column; no row changes then, and the updater does not look at the
  outcome either.
\<close>

definition update_by_id :: "uuid \<Rightarrow> updates \<Rightarrow> post_analytics_row list \<Rightarrow> post_analytics_row list" where
  "update_by_id i u tbl =
     (if updates_fit u then map (\<lambda>r. if row_id r = i then spread r u else r) tbl else tbl)"

text \<open>A new row: the given columns, every other column at its DEFAULT.\<close>

definition new_row :: "uuid \<Rightarrow> uuid \<Rightarrow> uuid option \<Rightarrow> uuid \<Rightarrow> string \<Rightarrow> date \<Rightarrow> post_analytics_row" where
  "new_row i tenantId contentItemId scheduledPostId pf today =
     \<lparr>row_id = i, tenant_id = tenantId, content_item_id = contentItemId,
      scheduled_post_id = Some scheduledPostId, platform = pf,
      views = 0, likes = 0, comments = 0, shares = 0, clicks = 0, impressions = 0,
      engagement_rate = 0, click_through_rate = 0, unique_viewers = 0, reach = 0,
      date = today\<rparr>"

text \<open>
  The second half of \<open>updatePostAnalytics\<close>, from the row that was read: recompute the two
  rates and update the row by id, or look the content item up and insert a row whose two
  rates are the literal 0. \<open>newId\<close> is the id the store generates for an inserted row.
\<close>

definition write_back ::
  "date \<Rightarrow> uuid \<Rightarrow> db \<Rightarrow> uuid \<Rightarrow> uuid \<Rightarrow> string \<Rightarrow> string \<Rightarrow> int \<Rightarrow>
   post_analytics_row option \<Rightarrow> db" where
  "write_back today newId d tenantId scheduledPostId pf eventType eventValue existing =
     (let upd = increment eventType existing eventValue in
      case existing of
        Some ex \<Rightarrow>
          let newTotals = spread ex upd;
              totalEngagement = likes newTotals + comments newTotals + shares newTotals;
              upd' = upd\<lparr>u_engagement_rate := Some (rate totalEngagement (impressions newTotals)),
                         u_click_through_rate :=
                           Some (rate (clicks newTotals) (impressions newTotals))\<rparr>
          in d\<lparr>post_analytics := update_by_id (row_id ex) upd' (post_analytics d)\<rparr>
      | None \<Rightarrow>
          let scheduledPost = scheduled_posts d scheduledPostId;
              cid = (case scheduledPost of None \<Rightarrow> None | Some sp \<Rightarrow> sp_content_item_id sp);
              n = (spread (new_row newId tenantId cid scheduledPostId pf today) upd)
                    \<lparr>engagement_rate := 0, click_through_rate := 0\<rparr>
          in d\<lparr>post_analytics := insert_row n (post_analytics d)\<rparr>)"

definition updatePostAnalytics ::
  "date \<Rightarrow> uuid \<Rightarrow> db \<Rightarrow> uuid \<Rightarrow> uuid \<Rightarrow> string \<Rightarrow> string \<Rightarrow> int \<Rightarrow> db" where
  "updatePostAnalytics today newId d tenantId scheduledPostId pf eventType eventValue =
     write_back today newId d tenantId scheduledPostId pf eventType eventValue
       (existing_row d tenantId scheduledPostId pf today)"

text \<open>
  The two statements of the write, named for the proofs: the \<open>updates\<close> object of the
  update, and the row of the insert.
\<close>

definition full_updates :: "string \<Rightarrow> int \<Rightarrow> post_analytics_row \<Rightarrow> updates" where
  "full_updates ety v ex =
     (let upd = increment ety (Some ex) v;
          newTotals = spread ex upd
      in upd\<lparr>u_engagement_rate :=
               Some (rate (likes newTotals + comments newTotals + shares newTotals)
                       (impressions newTotals)),
             u_click_through_rate := Some (rate (clicks newTotals) (impressions newTotals))\<rparr>)"

definition inserted ::
  "date \<Rightarrow> uuid \<Rightarrow> db \<Rightarrow> uuid \<Rightarrow> uuid \<Rightarrow> string \<Rightarrow> string \<Rightarrow> int \<Rightarrow> post_analytics_row" where
  "inserted day newId d t p pf ety v =
     (spread (new_row newId t
        (case scheduled_posts d p of None \<Rightarrow> None | Some sp \<Rightarrow> sp_content_item_id sp) p pf day)
        (increment ety None v))\<lparr>engagement_rate := 0, click_through_rate := 0\<rparr>"

text \<open>
  Whether the store accepts the write of a call as far as the column types go: the values
  of the update fit their columns when the updater found a row, the row to insert fits
  when it found none.
\<close>

definition write_fits ::
  "date \<Rightarrow> uuid \<Rightarrow> db \<Rightarrow> uuid \<Rightarrow> uuid \<Rightarrow> string \<Rightarrow> string \<Rightarrow> int \<Rightarrow> bool" where
  "write_fits day newId d t p pf ety v =
     (case existing_row d t p pf day of
        Some ex \<Rightarrow> updates_fit (full_updates ety v ex)
      | None \<Rightarrow> row_fits (inserted day newId d t p pf ety v))"

section \<open>The query handlers\<close>

datatype http_error =
    Unauthorized          \<comment> \<open>401\<close>
  | TenantIdRequired      \<comment> \<open>400, \<open>Tenant ID is required\<close>\<close>
  | InvalidRequest        \<comment> \<open>400, the body failed \<open>eventSchema\<close>\<close>
  | AccessDenied          \<comment> \<open>403\<close>
  | ServerError           \<comment> \<open>500, from the \<open>catch\<close>\<close>

text \<open>
  The filter both handlers build: always \<open>eq('tenant_id', tenantId)\<close>, then the optional
  bounds on \<open>date\<close> and the optional platform. A bound is \<open>None\<close> when the parameter is
  absent or empty, and the parsed day otherwise.
\<close>

definition matches ::
  "uuid \<Rightarrow> date option \<Rightarrow> date option \<Rightarrow> string option \<Rightarrow> post_analytics_row \<Rightarrow> bool" where
  "matches tenantId startDate endDate pf r =
     (tenant_id r = tenantId \<and>
      (case startDate of None \<Rightarrow> True | Some s \<Rightarrow> s \<le> date r) \<and>
      (case endDate of None \<Rightarrow> True | Some e \<Rightarrow> date r \<le> e) \<and>
      (case pf of None \<Rightarrow> True | Some p \<Rightarrow> if truthy p then platform r = p else True))"

text \<open>
  \<open>order(column, { ascending: false })\<close>. The store leaves the order of rows with equal
  keys open; here they keep the order they have in the table.
\<close>

definition order_desc :: "('a \<Rightarrow> rat) \<Rightarrow> 'a list \<Rightarrow> 'a list" where
  "order_desc col rows = sort_key (\<lambda>r. - col r) rows"

record totals =
  t_views :: int
  t_likes :: int
  t_comments :: int
  t_shares :: int
  t_clicks :: int
  t_impressions :: int
  t_reach :: int

definition zero_totals :: totals where
  "zero_totals = \<lparr>t_views = 0, t_likes = 0, t_comments = 0, t_shares = 0, t_clicks = 0,
     t_impressions = 0, t_reach = 0\<rparr>"

definition add_totals :: "totals \<Rightarrow> post_analytics_row \<Rightarrow> totals" where
  "add_totals acc r =
     \<lparr>t_views = t_views acc + views r, t_likes = t_likes acc + likes r,
      t_comments = t_comments acc + comments r, t_shares = t_shares acc + shares r,
      t_clicks = t_clicks acc + clicks r, t_impressions = t_impressions acc + impressions r,
      t_reach = t_reach acc + reach r\<rparr>"

text \<open>
  \<open>analytics.length > 0 ? analytics.reduce((sum, r) => sum + r.rate, 0) / analytics.length : 0\<close>.
  A stored rate reaches the handler as the binary64 number nearest to the decimal; each
  addition and the division round again.
\<close>

definition avg_rate :: "(post_analytics_row \<Rightarrow> rat) \<Rightarrow> post_analytics_row list \<Rightarrow> rat" where
  "avg_rate col rows =
     (if 0 < length rows
      then fl (foldl (\<lambda>sum r. fl (sum + fl (col r))) 0 rows / of_nat (length rows))
      else 0)"

record platform_group =
  g_platform :: string
  g_views :: int
  g_likes :: int
  g_comments :: int
  g_shares :: int
  g_clicks :: int
  g_impressions :: int
  posts_count :: int

definition add_to_group :: "platform_group \<Rightarrow> post_analytics_row \<Rightarrow> platform_group" where
  "add_to_group g r =
     g\<lparr>g_views := g_views g + views r, g_likes := g_likes g + likes r,
       g_comments := g_comments g + comments r, g_shares := g_shares g + shares r,
       g_clicks := g_clicks g + clicks r, g_impressions := g_impressions g + impressions r,
       posts_count := posts_count g + 1\<rparr>"

definition empty_group :: "string \<Rightarrow> platform_group" where
  "empty_group p = \<lparr>g_platform = p, g_views = 0, g_likes = 0, g_comments = 0, g_shares = 0,
     g_clicks = 0, g_impressions = 0, posts_count = 0\<rparr>"

text \<open>
  One step of the \<open>byPlatform\<close> reduce. The accumulator object is kept as the list of its
  values in insertion order, which is the order of \<open>Object.values\<close> for platform names
  that are neither array indices nor names every object inherits.
\<close>

definition group_step :: "platform_group list \<Rightarrow> post_analytics_row \<Rightarrow> platform_group list" where
  "group_step acc r =
     (if list_ex (\<lambda>g. g_platform g = platform r) acc
      then map (\<lambda>g. if g_platform g = platform r then add_to_group g r else g) acc
      else acc @ [add_to_group (empty_group (platform r)) r])"

record overview =
  ov_totals :: totals
  avg_engagement_rate :: rat
  avg_click_through_rate :: rat
  by_platform :: "platform_group list"
  records :: "post_analytics_row list"

record overview_query =
  q_tenantId :: "string option"
  q_startDate :: "date option"
  q_endDate :: "date option"
  q_platform :: "string option"

text \<open>
  \<open>GET /api/settings/analytics\<close>. \<open>user\<close> is the authenticated user, if any;
  \<open>analyticsError\<close> says that the store failed the query.
\<close>

definition GET_analytics ::
  "db \<Rightarrow> uuid option \<Rightarrow> overview_query \<Rightarrow> bool \<Rightarrow> http_error + overview" where
  "GET_analytics d user q analyticsError =
     (case user of None \<Rightarrow> Inl Unauthorized | Some uid \<Rightarrow>
      case q_tenantId q of None \<Rightarrow> Inl TenantIdRequired | Some tenantId \<Rightarrow>
      if \<not> truthy tenantId then Inl TenantIdRequired
      else if tenantUser d tenantId uid = None then Inl AccessDenied
      else if analyticsError then Inl ServerError
      else
        let analytics = order_desc (\<lambda>r. of_nat (date r))
              [r \<leftarrow> post_analytics d.
                 matches tenantId (q_startDate q) (q_endDate q) (q_platform q) r]
        in Inr \<lparr>ov_totals = foldl add_totals zero_totals analytics,
                 avg_engagement_rate = toFixed2 (avg_rate engagement_rate analytics),
                 avg_click_through_rate = toFixed2 (avg_rate click_through_rate analytics),
                 by_platform = foldl group_step [] analytics,
                 records = analytics\<rparr>)"

record post_metrics =
  m_views :: int
  m_likes :: int
  m_comments :: int
  m_shares :: int
  m_clicks :: int
  m_impressions :: int
  m_engagement_rate :: rat
  m_click_through_rate :: rat
  m_reach :: int

record schedule_info =
  si_scheduled_at :: string
  si_published_at :: "string option"
  si_status :: string

record formatted_post =
  fp_id :: uuid
  fp_content_item_id :: "uuid option"
  fp_scheduled_post_id :: "uuid option"
  fp_platform :: string
  fp_date :: date
  fp_metrics :: post_metrics
  fp_content :: "content_item option"
  fp_schedule_info :: "schedule_info option"

definition validMetrics :: "string list" where
  "validMetrics = [''views'', ''likes'', ''comments'', ''shares'', ''clicks'', ''impressions'',
     ''engagement_rate'', ''click_through_rate'']"

text \<open>The column a valid metric name orders by.\<close>

definition metric_column :: "string \<Rightarrow> post_analytics_row \<Rightarrow> rat" where
  "metric_column m r =
     (if m = ''views'' then of_int (views r)
      else if m = ''likes'' then of_int (likes r)
      else if m = ''comments'' then of_int (comments r)
      else if m = ''shares'' then of_int (shares r)
      else if m = ''clicks'' then of_int (clicks r)
      else if m = ''impressions'' then of_int (impressions r)
      else if m = ''click_through_rate'' then click_through_rate r
      else engagement_rate r)"

text \<open>\<open>searchParams.get('metric') || 'engagement_rate'\<close>, then the check against \<open>validMetrics\<close>.\<close>

definition orderBy :: "string option \<Rightarrow> string" where
  "orderBy metric =
     (let m = (case metric of None \<Rightarrow> ''engagement_rate''
               | Some s \<Rightarrow> if truthy s then s else ''engagement_rate'')
      in if m \<in> set validMetrics then m else ''engagement_rate'')"

text \<open>The rows the top-posts query returns: filtered, ordered, cut at the limit.\<close>

definition topPosts ::
  "db \<Rightarrow> uuid \<Rightarrow> string option \<Rightarrow> nat \<Rightarrow> string option \<Rightarrow> date option \<Rightarrow> date option \<Rightarrow>
   post_analytics_row list" where
  "topPosts d tenantId metric limit pf startDate endDate =
     take limit (order_desc (metric_column (orderBy metric))
       [r \<leftarrow> post_analytics d. matches tenantId startDate endDate pf r])"

text \<open>The embedded \<open>content_items\<close> and \<open>scheduled_posts\<close> rows come through the foreign keys.\<close>

definition format_post :: "db \<Rightarrow> post_analytics_row \<Rightarrow> formatted_post" where
  "format_post d post =
     \<lparr>fp_id = row_id post,
      fp_content_item_id = content_item_id post,
      fp_scheduled_post_id = scheduled_post_id post,
      fp_platform = platform post,
      fp_date = date post,
      fp_metrics = \<lparr>m_views = views post, m_likes = likes post, m_comments = comments post,
        m_shares = shares post, m_clicks = clicks post, m_impressions = impressions post,
        m_engagement_rate = engagement_rate post,
        m_click_through_rate = click_through_rate post, m_reach = reach post\<rparr>,
      fp_content = (case content_item_id post of None \<Rightarrow> None | Some c \<Rightarrow> content_items d c),
      fp_schedule_info =
        (case scheduled_post_id post of None \<Rightarrow> None
         | Some p \<Rightarrow>
             (case scheduled_posts d p of None \<Rightarrow> None
              | Some sp \<Rightarrow> Some \<lparr>si_scheduled_at = scheduled_at sp,
                  si_published_at = published_at sp, si_status = status sp\<rparr>))\<rparr>"

record top_query =
  tq_tenantId :: "string option"
  tq_metric :: "string option"
  tq_limit :: "nat option"
  tq_platform :: "string option"
  tq_startDate :: "date option"
  tq_endDate :: "date option"

text \<open>
  \<open>GET /api/settings/analytics/top-posts\<close>. \<open>tq_limit\<close> is the number \<open>parseInt\<close> reads from
  the parameter, \<open>None\<close> when the parameter is absent or empty (then the limit is 10).
\<close>

definition GET_top_posts ::
  "db \<Rightarrow> uuid option \<Rightarrow> top_query \<Rightarrow> bool \<Rightarrow> http_error + formatted_post list" where
  "GET_top_posts d user q postsError =
     (case user of None \<Rightarrow> Inl Unauthorized | Some uid \<Rightarrow>
      case tq_tenantId q of None \<Rightarrow> Inl TenantIdRequired | Some tenantId \<Rightarrow>
      if \<not> truthy tenantId then Inl TenantIdRequired
      else if tenantUser d tenantId uid = None then Inl AccessDenied
      else if postsError then Inl ServerError
      else
        let limit = (case tq_limit q of None \<Rightarrow> 10 | Some n \<Rightarrow> n)
        in Inr (map (format_post d)
                 (topPosts d tenantId (tq_metric q) limit (tq_platform q)
                    (tq_startDate q) (tq_endDate q))))"

section \<open>Recording an event\<close>

text \<open>
  The request body after \<open>request.json()\<close>. A JSON number is taken to be an integer, which
  is what the INTEGER column \<open>event_value\<close> holds. A key given twice keeps its last value.
\<close>

definition get_key :: "(string \<times> json) list \<Rightarrow> string \<Rightarrow> json option" where
  "get_key kvs k = map_of (rev kvs) k"

text \<open>
  The validators \<open>eventSchema\<close> is built from, each on the value found under a key
  (\<open>None\<close> when the key is absent). What counts as a UUID is the validation library's
  business and is the parameter \<open>isUuid\<close>.
\<close>

definition z_string :: "json option \<Rightarrow> string option" where
  "z_string j = (case j of Some (JStr s) \<Rightarrow> Some s | _ \<Rightarrow> None)"

definition z_uuid :: "(string \<Rightarrow> bool) \<Rightarrow> json option \<Rightarrow> string option" where
  "z_uuid isUuid j =
     (case z_string j of None \<Rightarrow> None | Some s \<Rightarrow> if isUuid s then Some s else None)"

definition z_optional :: "(json option \<Rightarrow> 'a option) \<Rightarrow> json option \<Rightarrow> 'a option option" where
  "z_optional p j = (case j of None \<Rightarrow> Some None | Some x \<Rightarrow> map_option Some (p j))"

definition z_enum :: "string list \<Rightarrow> json option \<Rightarrow> string option" where
  "z_enum vals j =
     (case z_string j of None \<Rightarrow> None | Some s \<Rightarrow> if s \<in> set vals then Some s else None)"

definition z_number_default :: "int \<Rightarrow> json option \<Rightarrow> int option" where
  "z_number_default dflt j =
     (case j of None \<Rightarrow> Some dflt | Some (JNum n) \<Rightarrow> Some n | Some _ \<Rightarrow> None)"

definition z_record_any :: "json option \<Rightarrow> (string \<times> json) list option" where
  "z_record_any j = (case j of Some (JObj kvs) \<Rightarrow> Some kvs | _ \<Rightarrow> None)"

definition eventTypes :: "string list" where
  "eventTypes = [''view'', ''like'', ''comment'', ''share'', ''click'', ''impression'']"

record event_data =
  v_tenantId :: uuid
  v_contentItemId :: "uuid option"
  v_scheduledPostId :: "uuid option"
  v_eventType :: string
  v_platform :: string
  v_eventValue :: int
  v_eventMetadata :: "(string \<times> json) list option"
  v_externalEventId :: "string option"

text \<open>\<open>eventSchema.safeParse(body)\<close>: the parsed data, or \<open>None\<close> when validation fails.\<close>

definition eventSchema :: "(string \<Rightarrow> bool) \<Rightarrow> json \<Rightarrow> event_data option" where
  "eventSchema isUuid body =
     (case body of
        JObj kvs \<Rightarrow>
          (case z_uuid isUuid (get_key kvs ''tenantId'') of None \<Rightarrow> None | Some tid \<Rightarrow>
           case z_optional (z_uuid isUuid) (get_key kvs ''contentItemId'') of None \<Rightarrow> None | Some cid \<Rightarrow>
           case z_optional (z_uuid isUuid) (get_key kvs ''scheduledPostId'') of None \<Rightarrow> None | Some spid \<Rightarrow>
           case z_enum eventTypes (get_key kvs ''eventType'') of None \<Rightarrow> None | Some ety \<Rightarrow>
           case z_string (get_key kvs ''platform'') of None \<Rightarrow> None | Some pf \<Rightarrow>
           case z_number_default 1 (get_key kvs ''eventValue'') of None \<Rightarrow> None | Some val \<Rightarrow>
           case z_optional z_record_any (get_key kvs ''eventMetadata'') of None \<Rightarrow> None | Some md \<Rightarrow>
           case z_optional z_string (get_key kvs ''externalEventId'') of None \<Rightarrow> None | Some xid \<Rightarrow>
             Some \<lparr>v_tenantId = tid, v_contentItemId = cid, v_scheduledPostId = spid,
                    v_eventType = ety, v_platform = pf, v_eventValue = val,
                    v_eventMetadata = md, v_externalEventId = xid\<rparr>)
      | _ \<Rightarrow> None)"

text \<open>
  What a request takes from outside the handler: the UTC day of the clock, the ids the
  store generates for the event and for a new aggregate row, and whether the store failed
  the insert of the event.
\<close>

record post_env =
  today :: date
  event_uuid :: uuid
  row_uuid :: uuid
  eventError :: bool

text \<open>
  \<open>POST /api/settings/analytics\<close>. The body is \<open>None\<close> when it is not JSON at all, which
  \<open>request.json()\<close> throws on. The result is the response and the store afterwards.
\<close>

definition POST_analytics ::
  "(string \<Rightarrow> bool) \<Rightarrow> post_env \<Rightarrow> db \<Rightarrow> uuid option \<Rightarrow> json option \<Rightarrow>
   (http_error + analytics_event) \<times> db" where
  "POST_analytics isUuid env d user body =
     (case user of None \<Rightarrow> (Inl Unauthorized, d) | Some uid \<Rightarrow>
      case body of None \<Rightarrow> (Inl ServerError, d) | Some b \<Rightarrow>
      case eventSchema isUuid b of None \<Rightarrow> (Inl InvalidRequest, d) | Some v \<Rightarrow>
      if tenantUser d (v_tenantId v) uid = None then (Inl AccessDenied, d)
      else if eventError env then (Inl ServerError, d)
      else
        let event = \<lparr>event_id = event_uuid env, ev_tenant_id = v_tenantId v,
              ev_content_item_id = v_contentItemId v,
              ev_scheduled_post_id = v_scheduledPostId v,
              event_type = v_eventType v, ev_platform = v_platform v,
              event_value = v_eventValue v,
              event_metadata = (case v_eventMetadata v of None \<Rightarrow> [] | Some m \<Rightarrow> m),
              external_event_id = v_externalEventId v\<rparr>;
            d1 = d\<lparr>analytics_events := analytics_events d @ [event]\<rparr>;
            d2 = (case v_scheduledPostId v of
                    None \<Rightarrow> d1
                  | Some scheduledPostId \<Rightarrow>
                      if truthy scheduledPostId
                      then updatePostAnalytics (today env) (row_uuid env) d1 (v_tenantId v)
                             scheduledPostId (v_platform v) (v_eventType v) (v_eventValue v)
                      else d1)
        in (Inr event, d2))"

section \<open>Sequences of updates, one after another and interleaved\<close>

record upa_call =
  c_today :: date
  c_newId :: uuid
  c_tenantId :: uuid
  c_scheduledPostId :: uuid
  c_platform :: string
  c_eventType :: string
  c_eventValue :: int

definition upa :: "db \<Rightarrow> upa_call \<Rightarrow> db" where
  "upa d c = updatePostAnalytics (c_today c) (c_newId c) d (c_tenantId c)
     (c_scheduledPostId c) (c_platform c) (c_eventType c) (c_eventValue c)"

text \<open>The calls of a list, each completed before the next starts.\<close>

definition upa_all :: "upa_call list \<Rightarrow> db \<Rightarrow> db" where
  "upa_all cs d = foldl upa d cs"

text \<open>Every write of the calls, run one after another, fits the column types.\<close>

definition call_fits :: "db \<Rightarrow> upa_call \<Rightarrow> bool" where
  "call_fits d c = write_fits (c_today c) (c_newId c) d (c_tenantId c)
     (c_scheduledPostId c) (c_platform c) (c_eventType c) (c_eventValue c)"

fun all_fit :: "upa_call list \<Rightarrow> db \<Rightarrow> bool" where
  "all_fit [] d = True"
| "all_fit (c # cs) d = (call_fits d c \<and> all_fit cs (upa d c))"

text \<open>
  \<open>updatePostAnalytics\<close> awaits the select of the current row and then awaits the write.
  Between the two another request may run. A task is a call that has not started, a call
  that holds the row it read, or a finished call.
\<close>

datatype task = Waiting upa_call | HasRead upa_call "post_analytics_row option" | Finished

fun step_task :: "db \<Rightarrow> task \<Rightarrow> db \<times> task" where
  "step_task d (Waiting c) =
     (d, HasRead c (existing_row d (c_tenantId c) (c_scheduledPostId c) (c_platform c) (c_today c)))"
| "step_task d (HasRead c existing) =
     (write_back (c_today c) (c_newId c) d (c_tenantId c) (c_scheduledPostId c)
        (c_platform c) (c_eventType c) (c_eventValue c) existing, Finished)"
| "step_task d Finished = (d, Finished)"

text \<open>A schedule names, step by step, the task that moves next.\<close>

fun run :: "nat list \<Rightarrow> db \<times> task list \<Rightarrow> db \<times> task list" where
  "run [] cfg = cfg"
| "run (i # sched) (d, ts) =
     (if i < length ts
      then (let (d', t') = step_task d (ts ! i) in run sched (d', ts[i := t']))
      else run sched (d, ts))"

text \<open>The serial schedule of \<open>n\<close> tasks: task 0 reads and writes, then task 1, and so on.\<close>

definition serial :: "nat \<Rightarrow> nat list" where
  "serial n = concat (map (\<lambda>i. [i, i]) [0..<n])"

section \<open>The aggregate row of a natural key\<close>

definition key_rows ::
  "db \<Rightarrow> uuid \<Rightarrow> uuid \<Rightarrow> string \<Rightarrow> date \<Rightarrow> post_analytics_row list" where
  "key_rows d tenantId scheduledPostId pf day =
     [r \<leftarrow> post_analytics d.
       tenant_id r = tenantId \<and> scheduled_post_id r = Some scheduledPostId \<and>
       platform r = pf \<and> date r = day]"

text \<open>The raw counter that belongs to an event type.\<close>

definition counter_of :: "string \<Rightarrow> post_analytics_row \<Rightarrow> int" where
  "counter_of ety r =
     (if ety = ''view'' then views r
      else if ety = ''like'' then likes r
      else if ety = ''comment'' then comments r
      else if ety = ''share'' then shares r
      else if ety = ''click'' then clicks r
      else if ety = ''impression'' then impressions r
      else 0)"

text \<open>The counter of the key's row before any update: 0 when the key has no row yet.\<close>

definition counter_before ::
  "string \<Rightarrow> db \<Rightarrow> uuid \<Rightarrow> uuid \<Rightarrow> string \<Rightarrow> date \<Rightarrow> int" where
  "counter_before ety d tenantId scheduledPostId pf day =
     (case key_rows d tenantId scheduledPostId pf day of
        [] \<Rightarrow> 0 | r # rs \<Rightarrow> counter_of ety r)"

text \<open>
  The constraints of table \<open>post_analytics\<close>: the primary key is unique, and so is the
  natural key among the rows that have a scheduled post.
\<close>

definition natural_key :: "post_analytics_row \<Rightarrow> uuid \<times> uuid option \<times> string \<times> date" where
  "natural_key r = (tenant_id r, scheduled_post_id r, platform r, date r)"

definition constraints_hold :: "post_analytics_row list \<Rightarrow> bool" where
  "constraints_hold tbl =
     (distinct (map row_id tbl) \<and>
      distinct (map natural_key [r \<leftarrow> tbl. scheduled_post_id r \<noteq> None]))"

text \<open>The sum of \<open>value\<close> over the calls of one event type.\<close>

definition type_sum :: "string \<Rightarrow> upa_call list \<Rightarrow> int" where
  "type_sum ety cs = sum_list (map c_eventValue [c \<leftarrow> cs. c_eventType c = ety])"

section \<open>The rates as the specification words them\<close>

text \<open>Rounding to two decimal places, half up, of an exact value.\<close>

definition spec_round2 :: "rat \<Rightarrow> rat" where
  "spec_round2 x = of_int \<lfloor>x * 100 + 1 / 2\<rfloor> / 100"

text \<open>\<open>100 * x / impressions\<close> rounded to two decimal places, and 0 when there are no impressions.\<close>

definition spec_rate :: "int \<Rightarrow> int \<Rightarrow> rat" where
  "spec_rate x imp = (if imp = 0 then 0 else spec_round2 (100 * of_int x / of_int imp))"

text \<open>The arithmetic mean of a column over the rows, rounded to two decimal places.\<close>

definition spec_mean :: "(post_analytics_row \<Rightarrow> rat) \<Rightarrow> post_analytics_row list \<Rightarrow> rat" where
  "spec_mean col rows = spec_round2 (sum_list (map col rows) / of_nat (length rows))"

text \<open>The rate recomputed from summed counters, which the overview does not use.\<close>

definition weighted_rate :: "(post_analytics_row \<Rightarrow> int) \<Rightarrow> post_analytics_row list \<Rightarrow> rat" where
  "weighted_rate col rows =
     spec_rate (sum_list (map col rows)) (sum_list (map impressions rows))"

section \<open>Example stores\<close>

definition tenant_a :: uuid where
  "tenant_a = ''aaaaaaaa-aaaa-4aaa-8aaa-aaaaaaaaaaaa''"

definition tenant_b :: uuid where
  "tenant_b = ''bbbbbbbb-bbbb-4bbb-8bbb-bbbbbbbbbbbb''"

text \<open>A row with every counter at its default, for scheduled post \<open>post-i\<close>.\<close>

definition row :: "uuid \<Rightarrow> uuid \<Rightarrow> string \<Rightarrow> date \<Rightarrow> post_analytics_row" where
  "row i t pf day = new_row i t None (''post-'' @ i) pf day"

text \<open>A store with two tenants, one member each, and the given aggregate rows.\<close>

definition store :: "post_analytics_row list \<Rightarrow> db" where
  "store rows = \<lparr>tenant_users = [(tenant_a, ''user-a''), (tenant_b, ''user-b'')],
     analytics_events = [], post_analytics = rows,
     content_items = Map.empty, scheduled_posts = Map.empty\<rparr>"

text \<open>Three rows of tenant A with views 50, 200 and 10, and one row of tenant B.\<close>

definition views_store :: db where
  "views_store = store
     [(row ''1'' tenant_a ''instagram'' 10)\<lparr>views := 50\<rparr>,
      (row ''2'' tenant_a ''instagram'' 11)\<lparr>views := 200\<rparr>,
      (row ''3'' tenant_a ''tiktok'' 12)\<lparr>views := 10\<rparr>,
      (row ''4'' tenant_b ''tiktok'' 12)\<lparr>views := 999\<rparr>]"

text \<open>The request for the two rows of tenant A with the most views.\<close>

definition top_views_query :: top_query where
  "top_views_query = \<lparr>tq_tenantId = Some tenant_a, tq_metric = Some ''views'',
     tq_limit = Some 2, tq_platform = None, tq_startDate = None, tq_endDate = None\<rparr>"

text \<open>A row of tenant A with likes, impressions and the engagement rate stored for them.\<close>

definition flat_row :: "uuid \<Rightarrow> int \<Rightarrow> int \<Rightarrow> rat \<Rightarrow> post_analytics_row" where
  "flat_row i l imp er =
     (row i tenant_a ''instagram'' 10)\<lparr>likes := l, impressions := imp, engagement_rate := er\<rparr>"

text \<open>
  The shape of a UUID, eight, four, four, four and twelve hexadecimal digits between
  hyphens, as one instance of what the validation library accepts.
\<close>

definition hex_digit :: "char \<Rightarrow> bool" where
  "hex_digit c = (c \<in> set ''0123456789abcdefABCDEF'')"

definition uuid_shape :: "string \<Rightarrow> bool" where
  "uuid_shape s =
     (length s = 36 \<and>
      list_all (\<lambda>(i, c). if i \<in> set [8, 13, 18, 23] then c = CHR ''-'' else hex_digit c)
        (enumerate 0 s))"


text \<open>An event on a platform nobody knows, with a negative value.\<close>

definition odd_body :: json where
  "odd_body = JObj [(''tenantId'', JStr tenant_a), (''eventType'', JStr ''like''),
     (''platform'', JStr ''not-a-platform''), (''eventValue'', JNum (- 5))]"

text \<open>An event whose type is outside the enum.\<close>

definition retweet_body :: json where
  "retweet_body = JObj [(''tenantId'', JStr tenant_a), (''eventType'', JStr ''retweet''),
     (''platform'', JStr ''instagram'')]"

definition env0 :: post_env where
  "env0 = \<lparr>today = 12, event_uuid = ''e1'', row_uuid = ''r9'', eventError = False\<rparr>"

text \<open>A store whose one row stands one like before a rounding tie: 23 of 160 is 14.375 percent.\<close>

definition ties_store :: db where
  "ties_store = store
     [(row ''1'' tenant_a ''instagram'' 12)
        \<lparr>likes := 22, impressions := 160, engagement_rate := 55 / 4\<rparr>]"

text \<open>Calls for one natural key, and the five batches of the first end-to-end scenario.\<close>

definition call :: "string \<Rightarrow> int \<Rightarrow> upa_call" where
  "call ety v = \<lparr>c_today = 12, c_newId = ''new'', c_tenantId = tenant_a,
     c_scheduledPostId = ''post-1'', c_platform = ''instagram'', c_eventType = ety,
     c_eventValue = v\<rparr>"

definition scenario :: "upa_call list" where
  "scenario = [call ''impression'' 1000, call ''click'' 20, call ''like'' 50,
     call ''comment'' 10, call ''share'' 5]"

text \<open>A like of value 50 and then three impressions of value 1, for the same natural key.\<close>

definition likes_first :: "upa_call list" where
  "likes_first = [call ''like'' 50, call ''impression'' 1, call ''impression'' 1,
     call ''impression'' 1]"


text \<open>Two likes of value 1 for the same natural key.\<close>

definition like1 :: upa_call where
  "like1 = (call ''like'' 1)\<lparr>c_newId := ''n1''\<rparr>"

definition like2 :: upa_call where
  "like2 = (call ''like'' 1)\<lparr>c_newId := ''n2''\<rparr>"

text \<open>
  The store of the three rows of tenant A, with rows of tenant B in between, among them
  rows for the scheduled posts that tenant A's rows are for.
\<close>

definition crowded_store :: db where
  "crowded_store = store
     [(row ''9'' tenant_b ''instagram'' 11)\<lparr>scheduled_post_id := Some ''post-2'', views := 7000\<rparr>,
      (row ''1'' tenant_a ''instagram'' 10)\<lparr>views := 50\<rparr>,
      (row ''2'' tenant_a ''instagram'' 11)\<lparr>views := 200\<rparr>,
      (row ''8'' tenant_b ''instagram'' 10)\<lparr>scheduled_post_id := Some ''post-1'', likes := 5\<rparr>,
      (row ''3'' tenant_a ''tiktok'' 12)\<lparr>views := 10\<rparr>]"

text \<open>The overview of everything tenant A has.\<close>

definition all_query :: overview_query where
  "all_query = \<lparr>q_tenantId = Some tenant_a, q_startDate = None, q_endDate = None,
     q_platform = None\<rparr>"

text \<open>Events of tenant B, two of them for scheduled posts of tenant A's rows.\<close>

definition other_calls :: "upa_call list" where
  "other_calls =
     [(call ''like'' 5)\<lparr>c_tenantId := tenant_b, c_newId := ''8''\<rparr>,
      (call ''view'' 7000)\<lparr>c_tenantId := tenant_b, c_newId := ''9''\<rparr>,
      (call ''view'' 3)\<lparr>c_tenantId := tenant_b\<rparr>]"

text \<open>Two rows whose rates, 0.01 and 0.02, have the mean 0.015.\<close>

definition halves_store :: db where
  "halves_store = store [flat_row ''1'' 1 10000 (1 / 100), flat_row ''2'' 2 10000 (2 / 100)]"

text \<open>
  Two rows of very different volume: 1 like on 1 impression (rate 100) and no like on 99
  impressions (rate 0).
\<close>

definition uneven_store :: db where
  "uneven_store = store
     [flat_row ''1'' 1 1 100, flat_row ''2'' 0 99 0]"

section \<open>Basic facts\<close>

lemma toFixed2_zero [simp]: "toFixed2 0 = 0"
  by (simp add: toFixed2_def floor_eq_iff)

text \<open>The rates stored in the example rows are the ones the updater computes.\<close>

lemma example_rates:
  "rate 1 200 = 1 / 2" "rate 3 100 = 3" "rate 2 100 = 2" "rate 1 10000 = 1 / 100"
  "rate 2 10000 = 2 / 100" "rate 1 1 = 100" "rate 0 99 = 0" "rate 22 160 = 55 / 4"
  by code_simp+

lemma single_row_simps [simp]:
  "single_row [] = None" "single_row [x] = Some x" "single_row (x # y # zs) = None"
  by (simp_all add: single_row_def)

section \<open>The overview of no rows\<close>

text \<open>
  C10. When the filters of an overview request match no aggregate row, the request
  succeeds: the seven totals are 0, both averages are exactly 0 and \<open>by_platform\<close> is
  empty. The mean is only computed when there is at least one row, so nothing is divided
  by zero.
\<close>

theorem overview_no_rows:
  assumes "q_tenantId q = Some tenantId" and "truthy tenantId"
    and "tenantUser d tenantId uid \<noteq> None"
    and "[r \<leftarrow> post_analytics d.
            matches tenantId (q_startDate q) (q_endDate q) (q_platform q) r] = []"
  shows "GET_analytics d (Some uid) q False =
    Inr \<lparr>ov_totals = \<lparr>t_views = 0, t_likes = 0, t_comments = 0, t_shares = 0, t_clicks = 0,
            t_impressions = 0, t_reach = 0\<rparr>,
          avg_engagement_rate = 0, avg_click_through_rate = 0,
          by_platform = [], records = []\<rparr>"
  using assms
  by (simp add: GET_analytics_def order_desc_def avg_rate_def zero_totals_def)

theorem overview_no_rows_witness:
  "GET_analytics views_store (Some ''user-a'')
     \<lparr>q_tenantId = Some tenant_a, q_startDate = Some 20, q_endDate = None,
      q_platform = None\<rparr> False =
    Inr \<lparr>ov_totals = \<lparr>t_views = 0, t_likes = 0, t_comments = 0, t_shares = 0, t_clicks = 0,
            t_impressions = 0, t_reach = 0\<rparr>,
          avg_engagement_rate = 0, avg_click_through_rate = 0,
          by_platform = [], records = []\<rparr>"
  by (rule overview_no_rows)
     (simp_all add: truthy_def tenantUser_def views_store_def store_def row_def new_row_def
        matches_def tenant_a_def tenant_b_def)

section \<open>Ranking the top posts\<close>

lemma order_desc_mset [simp]: "mset (order_desc col rows) = mset rows"
  by (simp add: order_desc_def)

lemma order_desc_sorted: "sorted_wrt (\<lambda>a b. col b \<le> col a) (order_desc col rows)"
proof -
  have "sorted (map (\<lambda>r. - col r) (sort_key (\<lambda>r. - col r) rows))"
    by (rule sorted_sort_key)
  then show ?thesis
    by (simp add: order_desc_def sorted_map)
qed

lemma orderBy_valid: "m \<in> set validMetrics \<Longrightarrow> orderBy (Some m) = m"
  by (auto simp: orderBy_def truthy_def validMetrics_def)

lemma orderBy_invalid: "m \<notin> set validMetrics \<Longrightarrow> orderBy (Some m) = ''engagement_rate''"
  by (auto simp: orderBy_def truthy_def)

lemma orderBy_absent: "orderBy None = ''engagement_rate''"
  by (simp add: orderBy_def validMetrics_def)

lemma metric_column_default: "metric_column ''engagement_rate'' = engagement_rate"
  by (rule ext) (simp add: metric_column_def)

lemma top_views_example:
  "GET_top_posts views_store (Some ''user-a'') top_views_query False =
     Inr [format_post views_store ((row ''2'' tenant_a ''instagram'' 11)\<lparr>views := 200\<rparr>),
          format_post views_store ((row ''1'' tenant_a ''instagram'' 10)\<lparr>views := 50\<rparr>)]"
  by (simp add: GET_top_posts_def top_views_query_def truthy_def tenantUser_def views_store_def
      store_def topPosts_def orderBy_def validMetrics_def matches_def row_def new_row_def
      order_desc_def metric_column_def tenant_a_def tenant_b_def)

text \<open>
  C8. A top-posts request by an authenticated member returns the matched rows in descending
  order of the ranking column, cut at the limit: the result is a prefix of a descending
  rearrangement of the matched rows. The ranking column is the column named by the metric
  when that is one of the six counters or the two rates, and \<open>engagement_rate\<close> for any
  other or no metric. For metric \<open>views\<close> and limit 2 over rows with views 50, 200 and 10
  the result is the row with 200, then the row with 50.
\<close>

theorem top_posts_ranking:
  assumes "tq_tenantId q = Some tenantId" and "truthy tenantId"
    and "tenantUser d tenantId uid \<noteq> None"
    and "matched = [r \<leftarrow> post_analytics d.
           matches tenantId (tq_startDate q) (tq_endDate q) (tq_platform q) r]"
    and "limit = (case tq_limit q of None \<Rightarrow> 10 | Some n \<Rightarrow> n)"
    and "col = (case tq_metric q of None \<Rightarrow> engagement_rate
           | Some m \<Rightarrow> if m \<in> set validMetrics then metric_column m else engagement_rate)"
  shows "GET_top_posts d (Some uid) q False =
           Inr (map (format_post d) (take limit (order_desc col matched)))
         \<and> sorted_wrt (\<lambda>a b. col b \<le> col a) (order_desc col matched)
         \<and> mset (order_desc col matched) = mset matched
         \<and> [metric_column ''views'' r, metric_column ''likes'' r, metric_column ''comments'' r,
            metric_column ''shares'' r, metric_column ''clicks'' r,
            metric_column ''impressions'' r, metric_column ''engagement_rate'' r,
            metric_column ''click_through_rate'' r] =
           [of_int (views r), of_int (likes r), of_int (comments r), of_int (shares r),
            of_int (clicks r), of_int (impressions r), engagement_rate r, click_through_rate r]
         \<and> GET_top_posts views_store (Some ''user-a'') top_views_query False =
             Inr [format_post views_store
                    ((row ''2'' tenant_a ''instagram'' 11)\<lparr>views := 200\<rparr>),
                  format_post views_store
                    ((row ''1'' tenant_a ''instagram'' 10)\<lparr>views := 50\<rparr>)]"
proof -
  have c: "metric_column (orderBy (tq_metric q)) = col"
  proof (cases "tq_metric q")
    case None
    then show ?thesis
      using assms(6) by (simp add: orderBy_absent metric_column_default)
  next
    case (Some m)
    then show ?thesis
      using assms(6)
      by (cases "m \<in> set validMetrics")
         (simp_all add: orderBy_valid orderBy_invalid metric_column_default)
  qed
  have "GET_top_posts d (Some uid) q False =
           Inr (map (format_post d) (take limit (order_desc col matched)))"
    using assms(1-5) c by (simp add: GET_top_posts_def topPosts_def)
  moreover have "[metric_column ''views'' r, metric_column ''likes'' r,
            metric_column ''comments'' r,
            metric_column ''shares'' r, metric_column ''clicks'' r,
            metric_column ''impressions'' r, metric_column ''engagement_rate'' r,
            metric_column ''click_through_rate'' r] =
           [of_int (views r), of_int (likes r), of_int (comments r), of_int (shares r),
            of_int (clicks r), of_int (impressions r), engagement_rate r, click_through_rate r]"
    by (simp add: metric_column_def)
  ultimately show ?thesis
    using order_desc_sorted [of col matched] top_views_example by simp
qed

theorem top_posts_ranking_witness:
  "GET_top_posts (store [flat_row ''1'' 1 200 (1 / 2), flat_row ''2'' 3 100 3, flat_row ''3'' 2 100 2])
      (Some ''user-a'')
      \<lparr>tq_tenantId = Some tenant_a, tq_metric = Some ''bogus'', tq_limit = None,
       tq_platform = None, tq_startDate = None, tq_endDate = None\<rparr> False =
    Inr (map (format_post (store [flat_row ''1'' 1 200 (1 / 2), flat_row ''2'' 3 100 3, flat_row ''3'' 2 100 2]))
          [flat_row ''2'' 3 100 3, flat_row ''3'' 2 100 2, flat_row ''1'' 1 200 (1 / 2)])"
  using top_posts_ranking [of
      "\<lparr>tq_tenantId = Some tenant_a, tq_metric = Some ''bogus'', tq_limit = None,
        tq_platform = None, tq_startDate = None, tq_endDate = None\<rparr>"
      "tenant_a"
      "store [flat_row ''1'' 1 200 (1 / 2), flat_row ''2'' 3 100 3, flat_row ''3'' 2 100 2]"
      "''user-a''"
      "[flat_row ''1'' 1 200 (1 / 2), flat_row ''2'' 3 100 3, flat_row ''3'' 2 100 2]" 10 engagement_rate]
  by (simp add: truthy_def tenantUser_def store_def validMetrics_def matches_def flat_row_def
      row_def new_row_def order_desc_def tenant_a_def tenant_b_def)

section \<open>Validation of a recorded event\<close>

lemma uuid_shape_tenant_a: "uuid_shape tenant_a"
  by (simp add: uuid_shape_def tenant_a_def hex_digit_def enumerate_eq_zip)

lemma z_string_iff: "z_string j = Some s \<longleftrightarrow> j = Some (JStr s)"
  by (auto simp: z_string_def split: option.splits json.splits)

lemma z_string_JStr [simp]: "z_string (Some (JStr s)) = Some s"
  by (simp add: z_string_def)

lemma z_uuid_iff: "z_uuid isUuid j = Some s \<longleftrightarrow> j = Some (JStr s) \<and> isUuid s"
  by (auto simp: z_uuid_def z_string_iff split: option.splits)

lemma z_enum_iff: "z_enum vals j = Some s \<longleftrightarrow> j = Some (JStr s) \<and> s \<in> set vals"
  by (auto simp: z_enum_def z_string_iff split: option.splits)

lemma z_number_default_iff:
  "z_number_default dflt j = Some n \<longleftrightarrow> (j = None \<and> n = dflt) \<or> j = Some (JNum n)"
  by (auto simp: z_number_default_def split: option.splits json.splits)

lemma z_record_any_iff: "z_record_any j = Some m \<longleftrightarrow> j = Some (JObj m)"
  by (auto simp: z_record_any_def split: option.splits json.splits)

lemma z_optional_iff:
  "z_optional p j = Some r \<longleftrightarrow> (j = None \<and> r = None) \<or> (j \<noteq> None \<and> (\<exists>x. r = Some x \<and> p j = Some x))"
  by (auto simp: z_optional_def split: option.splits)

lemma eventSchema_Some_iff:
  "eventSchema isUuid b = Some v \<longleftrightarrow>
     (\<exists>kvs. b = JObj kvs \<and>
        z_uuid isUuid (get_key kvs ''tenantId'') = Some (v_tenantId v) \<and>
        z_optional (z_uuid isUuid) (get_key kvs ''contentItemId'') = Some (v_contentItemId v) \<and>
        z_optional (z_uuid isUuid) (get_key kvs ''scheduledPostId'') = Some (v_scheduledPostId v) \<and>
        z_enum eventTypes (get_key kvs ''eventType'') = Some (v_eventType v) \<and>
        z_string (get_key kvs ''platform'') = Some (v_platform v) \<and>
        z_number_default 1 (get_key kvs ''eventValue'') = Some (v_eventValue v) \<and>
        z_optional z_record_any (get_key kvs ''eventMetadata'') = Some (v_eventMetadata v) \<and>
        z_optional z_string (get_key kvs ''externalEventId'') = Some (v_externalEventId v))"
  by (cases b; cases v) (auto simp: eventSchema_def split: option.splits)

lemma POST_invalid_iff:
  "fst (POST_analytics isUuid env d user body) = Inl InvalidRequest \<longleftrightarrow>
     user \<noteq> None \<and> (\<exists>b. body = Some b \<and> eventSchema isUuid b = None)"
  by (auto simp: POST_analytics_def Let_def split: option.splits)

lemma POST_invalid_unchanged:
  "fst (POST_analytics isUuid env d user body) = Inl InvalidRequest \<Longrightarrow>
     snd (POST_analytics isUuid env d user body) = d"
  by (auto simp: POST_analytics_def Let_def split: option.splits if_splits)

lemma eventSchema_accepts_iff:
  "(\<exists>v. eventSchema isUuid b = Some v) \<longleftrightarrow>
     (\<exists>kvs. b = JObj kvs
        \<and> (\<exists>s. get_key kvs ''tenantId'' = Some (JStr s) \<and> isUuid s)
        \<and> (get_key kvs ''contentItemId'' = None
            \<or> (\<exists>s. get_key kvs ''contentItemId'' = Some (JStr s) \<and> isUuid s))
        \<and> (get_key kvs ''scheduledPostId'' = None
            \<or> (\<exists>s. get_key kvs ''scheduledPostId'' = Some (JStr s) \<and> isUuid s))
        \<and> (\<exists>s. get_key kvs ''eventType'' = Some (JStr s)
              \<and> s \<in> {''view'', ''like'', ''comment'', ''share'', ''click'', ''impression''})
        \<and> (\<exists>s. get_key kvs ''platform'' = Some (JStr s))
        \<and> (get_key kvs ''eventValue'' = None
            \<or> (\<exists>n. get_key kvs ''eventValue'' = Some (JNum n)))
        \<and> (get_key kvs ''eventMetadata'' = None
            \<or> (\<exists>m. get_key kvs ''eventMetadata'' = Some (JObj m)))
        \<and> (get_key kvs ''externalEventId'' = None
            \<or> (\<exists>s. get_key kvs ''externalEventId'' = Some (JStr s))))"
  (is "?L \<longleftrightarrow> ?R")
proof
  assume ?L
  then obtain v where "eventSchema isUuid b = Some v" ..
  then obtain kvs where b: "b = JObj kvs"
    and f1: "z_uuid isUuid (get_key kvs ''tenantId'') = Some (v_tenantId v)"
    and f2: "z_optional (z_uuid isUuid) (get_key kvs ''contentItemId'') = Some (v_contentItemId v)"
    and f3: "z_optional (z_uuid isUuid) (get_key kvs ''scheduledPostId'') = Some (v_scheduledPostId v)"
    and f4: "z_enum eventTypes (get_key kvs ''eventType'') = Some (v_eventType v)"
    and f5: "z_string (get_key kvs ''platform'') = Some (v_platform v)"
    and f6: "z_number_default 1 (get_key kvs ''eventValue'') = Some (v_eventValue v)"
    and f7: "z_optional z_record_any (get_key kvs ''eventMetadata'') = Some (v_eventMetadata v)"
    and f8: "z_optional z_string (get_key kvs ''externalEventId'') = Some (v_externalEventId v)"
    unfolding eventSchema_Some_iff by blast
  show ?R
  proof (intro exI [of _ kvs] conjI)
    show "b = JObj kvs" by (rule b)
    show "\<exists>s. get_key kvs ''tenantId'' = Some (JStr s) \<and> isUuid s"
      using f1 by (auto simp: z_uuid_iff)
    show "get_key kvs ''contentItemId'' = None
            \<or> (\<exists>s. get_key kvs ''contentItemId'' = Some (JStr s) \<and> isUuid s)"
      using f2 by (auto simp: z_optional_iff z_uuid_iff)
    show "get_key kvs ''scheduledPostId'' = None
            \<or> (\<exists>s. get_key kvs ''scheduledPostId'' = Some (JStr s) \<and> isUuid s)"
      using f3 by (auto simp: z_optional_iff z_uuid_iff)
    show "\<exists>s. get_key kvs ''eventType'' = Some (JStr s)
              \<and> s \<in> {''view'', ''like'', ''comment'', ''share'', ''click'', ''impression''}"
      using f4 unfolding z_enum_iff eventTypes_def by (intro exI [of _ "v_eventType v"]) simp
    show "\<exists>s. get_key kvs ''platform'' = Some (JStr s)"
      using f5 by (auto simp: z_string_iff)
    show "get_key kvs ''eventValue'' = None
            \<or> (\<exists>n. get_key kvs ''eventValue'' = Some (JNum n))"
      using f6 by (auto simp: z_number_default_iff)
    show "get_key kvs ''eventMetadata'' = None
            \<or> (\<exists>m. get_key kvs ''eventMetadata'' = Some (JObj m))"
      using f7 by (auto simp: z_optional_iff z_record_any_iff)
    show "get_key kvs ''externalEventId'' = None
            \<or> (\<exists>s. get_key kvs ''externalEventId'' = Some (JStr s))"
      using f8 by (auto simp: z_optional_iff z_string_iff)
  qed
next
  assume ?R
  then obtain kvs where k: "b = JObj kvs
        \<and> (\<exists>s. get_key kvs ''tenantId'' = Some (JStr s) \<and> isUuid s)
        \<and> (get_key kvs ''contentItemId'' = None
            \<or> (\<exists>s. get_key kvs ''contentItemId'' = Some (JStr s) \<and> isUuid s))
        \<and> (get_key kvs ''scheduledPostId'' = None
            \<or> (\<exists>s. get_key kvs ''scheduledPostId'' = Some (JStr s) \<and> isUuid s))
        \<and> (\<exists>s. get_key kvs ''eventType'' = Some (JStr s)
              \<and> s \<in> {''view'', ''like'', ''comment'', ''share'', ''click'', ''impression''})
        \<and> (\<exists>s. get_key kvs ''platform'' = Some (JStr s))
        \<and> (get_key kvs ''eventValue'' = None
            \<or> (\<exists>n. get_key kvs ''eventValue'' = Some (JNum n)))
        \<and> (get_key kvs ''eventMetadata'' = None
            \<or> (\<exists>m. get_key kvs ''eventMetadata'' = Some (JObj m)))
        \<and> (get_key kvs ''externalEventId'' = None
            \<or> (\<exists>s. get_key kvs ''externalEventId'' = Some (JStr s)))" ..
  then have b: "b = JObj kvs"
    and 1: "\<exists>s. get_key kvs ''tenantId'' = Some (JStr s) \<and> isUuid s"
    and 2: "get_key kvs ''contentItemId'' = None
            \<or> (\<exists>s. get_key kvs ''contentItemId'' = Some (JStr s) \<and> isUuid s)"
    and 3: "get_key kvs ''scheduledPostId'' = None
            \<or> (\<exists>s. get_key kvs ''scheduledPostId'' = Some (JStr s) \<and> isUuid s)"
    and 4: "\<exists>s. get_key kvs ''eventType'' = Some (JStr s)
              \<and> s \<in> {''view'', ''like'', ''comment'', ''share'', ''click'', ''impression''}"
    and 5: "\<exists>s. get_key kvs ''platform'' = Some (JStr s)"
    and 6: "get_key kvs ''eventValue'' = None
            \<or> (\<exists>n. get_key kvs ''eventValue'' = Some (JNum n))"
    and 7: "get_key kvs ''eventMetadata'' = None
            \<or> (\<exists>m. get_key kvs ''eventMetadata'' = Some (JObj m))"
    and 8: "get_key kvs ''externalEventId'' = None
            \<or> (\<exists>s. get_key kvs ''externalEventId'' = Some (JStr s))"
    by blast+
  from 1 obtain tid where c1: "z_uuid isUuid (get_key kvs ''tenantId'') = Some tid"
    by (auto simp: z_uuid_iff)
  from 4 obtain ety where e: "get_key kvs ''eventType'' = Some (JStr ety)
    \<and> ety \<in> {''view'', ''like'', ''comment'', ''share'', ''click'', ''impression''}" ..
  note e1 = conjunct1 [OF e] and e2 = conjunct2 [OF e]
  from e2 have "ety \<in> set eventTypes"
    unfolding eventTypes_def by simp
  with e1 have c4: "z_enum eventTypes (get_key kvs ''eventType'') = Some ety"
    by (simp add: z_enum_iff)
  from 5 obtain pf where c5: "z_string (get_key kvs ''platform'') = Some pf"
    by auto
  from 2 obtain cid where c2: "z_optional (z_uuid isUuid) (get_key kvs ''contentItemId'') = Some cid"
    by (auto simp: z_optional_iff z_uuid_iff)
  from 3 obtain spid where c3: "z_optional (z_uuid isUuid) (get_key kvs ''scheduledPostId'') = Some spid"
    by (auto simp: z_optional_iff z_uuid_iff)
  from 6 obtain val where c6: "z_number_default 1 (get_key kvs ''eventValue'') = Some val"
    by (auto simp: z_number_default_iff)
  from 7 obtain md where c7: "z_optional z_record_any (get_key kvs ''eventMetadata'') = Some md"
    by (auto simp: z_optional_iff z_record_any_iff)
  from 8 obtain xid where c8: "z_optional z_string (get_key kvs ''externalEventId'') = Some xid"
    by (auto simp: z_optional_iff z_string_iff)
  show ?L
    by (simp add: b eventSchema_def c1 c2 c3 c4 c5 c6 c7 c8)
qed

text \<open>
  C6, as the code has it. A request is answered with the validation error, and then the
  store is left as it was, exactly when the caller is authenticated, the body is JSON and
  the body fails \<open>eventSchema\<close>. The schema accepts a body exactly when it is an object whose
  \<open>tenantId\<close> is a UUID string, whose \<open>eventType\<close> is one of the six names, whose
  \<open>platform\<close> is a string (any string), whose \<open>eventValue\<close> is absent or a number (any
  number, zero and negative ones too) and whose optional keys, when present, have their
  type.
\<close>

theorem validation_exact:
  "(fst (POST_analytics isUuid env d user body) = Inl InvalidRequest \<longleftrightarrow>
      user \<noteq> None \<and> (\<exists>b. body = Some b \<and> eventSchema isUuid b = None))
   \<and> (fst (POST_analytics isUuid env d user body) = Inl InvalidRequest \<longrightarrow>
      snd (POST_analytics isUuid env d user body) = d)
   \<and> ((\<exists>v. eventSchema isUuid b = Some v) \<longleftrightarrow>
     (\<exists>kvs. b = JObj kvs
        \<and> (\<exists>s. get_key kvs ''tenantId'' = Some (JStr s) \<and> isUuid s)
        \<and> (get_key kvs ''contentItemId'' = None
            \<or> (\<exists>s. get_key kvs ''contentItemId'' = Some (JStr s) \<and> isUuid s))
        \<and> (get_key kvs ''scheduledPostId'' = None
            \<or> (\<exists>s. get_key kvs ''scheduledPostId'' = Some (JStr s) \<and> isUuid s))
        \<and> (\<exists>s. get_key kvs ''eventType'' = Some (JStr s)
              \<and> s \<in> {''view'', ''like'', ''comment'', ''share'', ''click'', ''impression''})
        \<and> (\<exists>s. get_key kvs ''platform'' = Some (JStr s))
        \<and> (get_key kvs ''eventValue'' = None
            \<or> (\<exists>n. get_key kvs ''eventValue'' = Some (JNum n)))
        \<and> (get_key kvs ''eventMetadata'' = None
            \<or> (\<exists>m. get_key kvs ''eventMetadata'' = Some (JObj m)))
        \<and> (get_key kvs ''externalEventId'' = None
            \<or> (\<exists>s. get_key kvs ''externalEventId'' = Some (JStr s)))))"
proof (intro conjI)
  show "fst (POST_analytics isUuid env d user body) = Inl InvalidRequest \<longleftrightarrow>
      user \<noteq> None \<and> (\<exists>b. body = Some b \<and> eventSchema isUuid b = None)"
    by (rule POST_invalid_iff)
  show "fst (POST_analytics isUuid env d user body) = Inl InvalidRequest \<longrightarrow>
      snd (POST_analytics isUuid env d user body) = d"
    by (rule impI) (rule POST_invalid_unchanged)
qed (rule eventSchema_accepts_iff)

theorem validation_exact_witness:
  "fst (POST_analytics uuid_shape env0 views_store (Some ''user-a'') (Some retweet_body)) =
     Inl InvalidRequest
   \<and> snd (POST_analytics uuid_shape env0 views_store (Some ''user-a'') (Some retweet_body)) =
     views_store"
proof -
  have "eventSchema uuid_shape retweet_body = None"
    by (simp add: eventSchema_def retweet_body_def get_key_def z_uuid_def z_optional_def
        z_enum_def eventTypes_def uuid_shape_tenant_a)
  then show ?thesis
    using validation_exact [of uuid_shape env0 views_store "Some ''user-a''" "Some retweet_body"
        retweet_body]
    by simp
qed

text \<open>
  The claim as worded fails: an event on an unknown platform with value \<open>-5\<close> passes
  validation and is appended to the log.
\<close>

theorem validation_counterexample:
  "POST_analytics uuid_shape env0 views_store (Some ''user-a'') (Some odd_body) =
     (Inr \<lparr>event_id = ''e1'', ev_tenant_id = tenant_a, ev_content_item_id = None,
          ev_scheduled_post_id = None, event_type = ''like'',
          ev_platform = ''not-a-platform'', event_value = - 5, event_metadata = [],
          external_event_id = None\<rparr>,
      views_store\<lparr>analytics_events :=
        [\<lparr>event_id = ''e1'', ev_tenant_id = tenant_a, ev_content_item_id = None,
          ev_scheduled_post_id = None, event_type = ''like'',
          ev_platform = ''not-a-platform'', event_value = - 5, event_metadata = [],
          external_event_id = None\<rparr>]\<rparr>)"
  by (simp add: POST_analytics_def eventSchema_def odd_body_def get_key_def z_uuid_def
     z_optional_def z_enum_def eventTypes_def z_number_default_def uuid_shape_tenant_a
     tenantUser_def views_store_def store_def env0_def Let_def)

section \<open>An event without a scheduled post\<close>

lemma GET_analytics_events [simp]:
  "GET_analytics (d\<lparr>analytics_events := evs\<rparr>) u q e = GET_analytics d u q e"
  by (simp add: GET_analytics_def tenantUser_def cong: option.case_cong if_cong)

lemma GET_top_posts_events [simp]:
  "GET_top_posts (d\<lparr>analytics_events := evs\<rparr>) u q e = GET_top_posts d u q e"
proof -
  have "format_post (d\<lparr>analytics_events := evs\<rparr>) = format_post d"
    by (rule ext) (simp add: format_post_def cong: option.case_cong)
  then show ?thesis
    by (simp add: GET_top_posts_def tenantUser_def topPosts_def cong: option.case_cong if_cong)
qed



section \<open>One update of an aggregate row\<close>

lemma spread_fixed [simp]:
  "row_id (spread r u) = row_id r" "tenant_id (spread r u) = tenant_id r"
  "content_item_id (spread r u) = content_item_id r"
  "scheduled_post_id (spread r u) = scheduled_post_id r"
  "platform (spread r u) = platform r" "date (spread r u) = date r"
  "unique_viewers (spread r u) = unique_viewers r" "reach (spread r u) = reach r"
  by (simp_all add: spread_def)

lemma existing_row_key_rows:
  "existing_row d t p pf day = single_row (key_rows d t p pf day)"
  by (simp add: existing_row_def key_rows_def)

lemma single_row_Some_iff: "single_row xs = Some x \<longleftrightarrow> xs = [x]"
  by (cases xs rule: remdups_adj.cases) simp_all

lemma write_back_Some:
  "write_back day newId d t p pf ety v (Some ex) =
     d\<lparr>post_analytics := update_by_id (row_id ex) (full_updates ety v ex) (post_analytics d)\<rparr>"
  by (simp add: write_back_def Let_def full_updates_def)

lemma write_back_None:
  "write_back day newId d t p pf ety v None =
     d\<lparr>post_analytics := insert_row (inserted day newId d t p pf ety v) (post_analytics d)\<rparr>"
  by (simp add: write_back_def Let_def inserted_def)


lemma spread_no_updates [simp]: "spread r no_updates = r"
  by (simp add: spread_def no_updates_def)

lemma spread_with_rates:
  "spread r (u\<lparr>u_engagement_rate := Some a, u_click_through_rate := Some b\<rparr>) =
     (spread r u)\<lparr>engagement_rate := a, click_through_rate := b\<rparr>"
  by (simp add: spread_def)

lemma spread_increment:
  "spread r (increment ''view'' ex v) = r\<lparr>views := or0 views ex + v\<rparr>"
  "spread r (increment ''like'' ex v) = r\<lparr>likes := or0 likes ex + v\<rparr>"
  "spread r (increment ''comment'' ex v) = r\<lparr>comments := or0 comments ex + v\<rparr>"
  "spread r (increment ''share'' ex v) = r\<lparr>shares := or0 shares ex + v\<rparr>"
  "spread r (increment ''click'' ex v) = r\<lparr>clicks := or0 clicks ex + v\<rparr>"
  "spread r (increment ''impression'' ex v) = r\<lparr>impressions := or0 impressions ex + v\<rparr>"
  by (simp_all add: increment_def spread_def no_updates_def)

lemma increment_other: "ety \<notin> set eventTypes \<Longrightarrow> increment ety ex v = no_updates"
  by (simp add: increment_def eventTypes_def)

lemma eventTypes_cases:
  obtains "ety = ''view''" | "ety = ''like''" | "ety = ''comment''" | "ety = ''share''"
    | "ety = ''click''" | "ety = ''impression''" | "ety \<notin> set eventTypes"
  unfolding eventTypes_def by auto

lemma counter_of_rates [simp]:
  "counter_of e (r\<lparr>engagement_rate := a\<rparr>) = counter_of e r"
  "counter_of e (r\<lparr>click_through_rate := b\<rparr>) = counter_of e r"
  by (simp_all add: counter_of_def)

lemma counter_of_increment:
  "counter_of e (spread r (increment ety ex v)) =
     (if e = ety \<and> ety \<in> set eventTypes then or0 (counter_of e) ex + v else counter_of e r)"
proof (cases ety rule: eventTypes_cases)
  case 7
  then show ?thesis by (simp add: increment_other)
qed (simp_all add: spread_increment counter_of_def eventTypes_def or0_def split: option.split)


lemma updated_eq:
  "spread ex (full_updates ety v ex) =
     (spread ex (increment ety (Some ex) v))
       \<lparr>engagement_rate :=
          rate (likes (spread ex (increment ety (Some ex) v))
                + comments (spread ex (increment ety (Some ex) v))
                + shares (spread ex (increment ety (Some ex) v)))
            (impressions (spread ex (increment ety (Some ex) v))),
        click_through_rate :=
          rate (clicks (spread ex (increment ety (Some ex) v)))
            (impressions (spread ex (increment ety (Some ex) v)))\<rparr>"
  by (simp add: full_updates_def Let_def spread_with_rates)

lemma updated_counter:
  "counter_of e (spread ex (full_updates ety v ex)) =
     counter_of e ex + (if e = ety \<and> ety \<in> set eventTypes then v else 0)"
  by (simp add: updated_eq counter_of_increment or0_def)

lemma updated_rates:
  "engagement_rate (spread ex (full_updates ety v ex)) =
     rate (likes (spread ex (full_updates ety v ex)) + comments (spread ex (full_updates ety v ex))
           + shares (spread ex (full_updates ety v ex)))
       (impressions (spread ex (full_updates ety v ex)))"
  "click_through_rate (spread ex (full_updates ety v ex)) =
     rate (clicks (spread ex (full_updates ety v ex)))
       (impressions (spread ex (full_updates ety v ex)))"
  by (simp_all add: updated_eq)

lemma inserted_fixed [simp]:
  "row_id (inserted day newId d t p pf ety v) = newId"
  "tenant_id (inserted day newId d t p pf ety v) = t"
  "scheduled_post_id (inserted day newId d t p pf ety v) = Some p"
  "platform (inserted day newId d t p pf ety v) = pf"
  "date (inserted day newId d t p pf ety v) = day"
  by (simp_all add: inserted_def new_row_def)

lemma counter_of_new_row [simp]: "counter_of e (new_row i t c p pf day) = 0"
  by (simp add: counter_of_def new_row_def)

lemma inserted_counter:
  "counter_of e (inserted day newId d t p pf ety v) =
     (if e = ety \<and> ety \<in> set eventTypes then v else 0)"
  by (simp add: inserted_def counter_of_increment or0_def)

lemma fl_zero [simp]: "fl 0 = 0"
  by (simp add: fl_def)

lemma rate_zero_left [simp]: "rate 0 imp = 0"
  by (simp add: rate_def)

lemma rate_nonpos [simp]: "imp \<le> 0 \<Longrightarrow> rate x imp = 0"
  by (simp add: rate_def)

lemma inserted_rates:
  "engagement_rate (inserted day newId d t p pf ety v) =
     rate (likes (inserted day newId d t p pf ety v) + comments (inserted day newId d t p pf ety v)
           + shares (inserted day newId d t p pf ety v))
       (impressions (inserted day newId d t p pf ety v))"
  "click_through_rate (inserted day newId d t p pf ety v) =
     rate (clicks (inserted day newId d t p pf ety v))
       (impressions (inserted day newId d t p pf ety v))"
  by (cases ety rule: eventTypes_cases;
      simp add: inserted_def spread_increment increment_other new_row_def or0_def)+

lemma key_rows_update_by_id:
  "updates_fit u \<Longrightarrow>
     key_rows (d\<lparr>post_analytics := update_by_id i u (post_analytics d)\<rparr>) t p pf day =
       map (\<lambda>r. if row_id r = i then spread r u else r) (key_rows d t p pf day)"
  by (simp add: key_rows_def update_by_id_def filter_map o_def if_distrib cong: if_cong)

lemma update_by_id_refused: "\<not> updates_fit u \<Longrightarrow> update_by_id i u tbl = tbl"
  by (simp add: update_by_id_def)

lemma write_fits_Some:
  "key_rows d t p pf day = [ex] \<Longrightarrow>
     write_fits day newId d t p pf ety v = updates_fit (full_updates ety v ex)"
  by (simp add: write_fits_def existing_row_key_rows)

lemma write_fits_None:
  "key_rows d t p pf day = [] \<Longrightarrow>
     write_fits day newId d t p pf ety v = row_fits (inserted day newId d t p pf ety v)"
  by (simp add: write_fits_def existing_row_key_rows)

text \<open>
  What fitting means for the two statements: the update fits when the incremented counter
  is INTEGER and the two recomputed rates are DECIMAL(5,2); the insert fits when the
  platform has at most 50 characters and the value, which becomes a counter, is INTEGER.
\<close>

lemma increment_rates [simp]:
  "u_engagement_rate (increment ety ex v) = None" "u_click_through_rate (increment ety ex v) = None"
  by (simp_all add: increment_def no_updates_def)

lemma increment_fit:
  "updates_fit (increment ety ex v) \<longleftrightarrow>
     (ety \<in> set eventTypes \<longrightarrow> fits_integer (or0 (counter_of ety) ex + v))"
  by (cases ety rule: eventTypes_cases)
     (simp_all add: increment_def updates_fit_def fits_opt_def no_updates_def counter_of_def
        eventTypes_def or0_def split: option.split)

lemma updates_fit_full:
  "updates_fit (full_updates ety v ex) \<longleftrightarrow>
     (ety \<in> set eventTypes \<longrightarrow> fits_integer (counter_of ety ex + v)) \<and>
     fits_decimal_5_2 (engagement_rate (spread ex (full_updates ety v ex))) \<and>
     fits_decimal_5_2 (click_through_rate (spread ex (full_updates ety v ex)))"
proof -
  have "updates_fit (full_updates ety v ex) \<longleftrightarrow>
      updates_fit (increment ety (Some ex) v) \<and>
      fits_decimal_5_2 (engagement_rate (spread ex (full_updates ety v ex))) \<and>
      fits_decimal_5_2 (click_through_rate (spread ex (full_updates ety v ex)))"
    by (simp add: updated_eq) (simp add: full_updates_def Let_def updates_fit_def fits_opt_def)
  then show ?thesis
    by (simp add: increment_fit or0_def)
qed

lemma row_fits_inserted_iff:
  "row_fits (inserted day newId d t p pf ety v) \<longleftrightarrow>
     length pf \<le> 50 \<and> (ety \<in> set eventTypes \<longrightarrow> fits_integer v)"
proof (cases ety rule: eventTypes_cases)
  case 7
  then show ?thesis
    by (simp add: inserted_def increment_other row_fits_def new_row_def fits_integer_def
        fits_decimal_5_2_def)
qed (simp_all add: inserted_def spread_increment or0_def row_fits_def new_row_def eventTypes_def
    fits_integer_def fits_decimal_5_2_def)

lemma upa_Some:
  "key_rows d t p pf day = [ex] \<Longrightarrow>
     updatePostAnalytics day newId d t p pf ety v =
       d\<lparr>post_analytics := update_by_id (row_id ex) (full_updates ety v ex) (post_analytics d)\<rparr>"
  by (simp add: updatePostAnalytics_def existing_row_key_rows write_back_Some)

lemma upa_None:
  "key_rows d t p pf day = [] \<Longrightarrow>
     updatePostAnalytics day newId d t p pf ety v =
       d\<lparr>post_analytics := insert_row (inserted day newId d t p pf ety v) (post_analytics d)\<rparr>"
  by (simp add: updatePostAnalytics_def existing_row_key_rows write_back_None)

lemma insert_row_fresh:
  assumes "key_rows d t p pf day = []" and "newId \<notin> row_id ` set (post_analytics d)"
    and "row_fits (inserted day newId d t p pf ety v)"
  shows "insert_row (inserted day newId d t p pf ety v) (post_analytics d) =
           post_analytics d @ [inserted day newId d t p pf ety v]"
proof -
  have "\<not> collides r (inserted day newId d t p pf ety v)" if "r \<in> set (post_analytics d)" for r
  proof -
    from assms(1) that have "\<not> (tenant_id r = t \<and> scheduled_post_id r = Some p \<and>
        platform r = pf \<and> date r = day)"
      by (auto simp: key_rows_def filter_empty_conv)
    moreover from assms(2) that have "row_id r \<noteq> newId" by auto
    ultimately show ?thesis by (auto simp: collides_def)
  qed
  with assms(3) show ?thesis
    by (auto simp: insert_row_def list_ex_iff)
qed

lemma key_rows_append:
  "key_rows (d\<lparr>post_analytics := post_analytics d @ [n]\<rparr>) t p pf day =
     key_rows d t p pf day @
       (if tenant_id n = t \<and> scheduled_post_id n = Some p \<and> platform n = pf \<and> date n = day
        then [n] else [])"
  by (simp add: key_rows_def)

lemma upa_step:
  assumes "length (key_rows d t p pf day) \<le> 1"
    and "key_rows d t p pf day = [] \<longrightarrow> newId \<notin> row_id ` set (post_analytics d)"
    and "write_fits day newId d t p pf ety v"
  shows "\<exists>r. key_rows (updatePostAnalytics day newId d t p pf ety v) t p pf day = [r]
     \<and> (\<forall>e. counter_of e r = counter_before e d t p pf day
           + (if e = ety \<and> ety \<in> set eventTypes then v else 0))
     \<and> engagement_rate r = rate (likes r + comments r + shares r) (impressions r)
     \<and> click_through_rate r = rate (clicks r) (impressions r)"
proof (cases "key_rows d t p pf day")
  case Nil
  with assms(2) have "newId \<notin> row_id ` set (post_analytics d)" by simp
  moreover from Nil assms(3) have "row_fits (inserted day newId d t p pf ety v)"
    by (simp add: write_fits_None)
  ultimately show ?thesis
    using Nil inserted_rates [of day newId d t p pf ety v]
    by (simp add: upa_None insert_row_fresh key_rows_append inserted_counter counter_before_def)
next
  case (Cons ex rest)
  with assms(1) have k: "key_rows d t p pf day = [ex]" by simp
  with assms(3) have "updates_fit (full_updates ety v ex)"
    by (simp add: write_fits_Some)
  with k show ?thesis
    using updated_rates [of ex ety v]
    by (simp add: upa_Some key_rows_update_by_id updated_counter counter_before_def)
qed

lemma upa_refused:
  assumes "length (key_rows d t p pf day) \<le> 1" and "\<not> write_fits day newId d t p pf ety v"
  shows "updatePostAnalytics day newId d t p pf ety v = d"
proof (cases "key_rows d t p pf day")
  case Nil
  with assms(2) show ?thesis
    by (simp add: write_fits_None upa_None insert_row_def)
next
  case (Cons ex rest)
  with assms(1) have k: "key_rows d t p pf day = [ex]" by simp
  with assms(2) show ?thesis
    by (simp add: write_fits_Some upa_Some update_by_id_refused)
qed

section \<open>Counter additivity\<close>

lemma type_sum_Cons:
  "type_sum e (c # cs) = (if c_eventType c = e then c_eventValue c else 0) + type_sum e cs"
  by (simp add: type_sum_def)

lemma type_sum_Nil [simp]: "type_sum e [] = 0"
  by (simp add: type_sum_def)

lemma counter_before_single: "key_rows d t p pf day = [r] \<Longrightarrow> counter_before e d t p pf day = counter_of e r"
  by (simp add: counter_before_def)

lemma upa_all_Cons: "upa_all (c # cs) d = upa_all cs (upa d c)"
  by (simp add: upa_all_def)

lemma upa_all_invariant:
  assumes "length (key_rows d t p pf day) \<le> 1"
    and "\<forall>c\<in>set cs. c_tenantId c = t \<and> c_scheduledPostId c = p \<and> c_platform c = pf \<and>
           c_today c = day"
    and "key_rows d t p pf day = [] \<longrightarrow>
           (\<forall>c\<in>set cs. c_newId c \<notin> row_id ` set (post_analytics d))"
    and "e \<in> set eventTypes" and "all_fit cs d"
  shows "length (key_rows (upa_all cs d) t p pf day) \<le> 1
     \<and> (cs \<noteq> [] \<or> key_rows d t p pf day \<noteq> [] \<longrightarrow> key_rows (upa_all cs d) t p pf day \<noteq> [])
     \<and> counter_before e (upa_all cs d) t p pf day = counter_before e d t p pf day + type_sum e cs"
  using assms
proof (induction cs arbitrary: d)
  case Nil
  then show ?case by (simp add: upa_all_def)
next
  case (Cons c cs)
  from Cons.prems(2) have key: "c_tenantId c = t" "c_scheduledPostId c = p" "c_platform c = pf"
    "c_today c = day" by simp_all
  from Cons.prems(3) have fresh:
    "key_rows d t p pf day = [] \<longrightarrow> c_newId c \<notin> row_id ` set (post_analytics d)" by simp
  from Cons.prems(5) have fits: "write_fits day (c_newId c) d t p pf (c_eventType c) (c_eventValue c)"
    and rest: "all_fit cs (upa d c)"
    by (simp_all add: call_fits_def key)
  from upa_step [OF Cons.prems(1) fresh fits]
  obtain r where r: "key_rows (upa d c) t p pf day = [r]"
    and cnt: "counter_of e r = counter_before e d t p pf day
           + (if e = c_eventType c \<and> c_eventType c \<in> set eventTypes then c_eventValue c else 0)"
    by (auto simp: upa_def key)
  have "length (key_rows (upa_all cs (upa d c)) t p pf day) \<le> 1
     \<and> (cs \<noteq> [] \<or> key_rows (upa d c) t p pf day \<noteq> [] \<longrightarrow>
          key_rows (upa_all cs (upa d c)) t p pf day \<noteq> [])
     \<and> counter_before e (upa_all cs (upa d c)) t p pf day =
         counter_before e (upa d c) t p pf day + type_sum e cs"
    using Cons.prems(2,4) r rest by (intro Cons.IH) simp_all
  moreover have "counter_before e (upa d c) t p pf day =
      counter_before e d t p pf day + (if c_eventType c = e then c_eventValue c else 0)"
    using cnt Cons.prems(4) by (auto simp: counter_before_single [OF r])
  ultimately show ?case
    using r by (simp add: upa_all_Cons type_sum_Cons)
qed

lemma upa_all_counters:
  assumes "length (key_rows d t p pf day) \<le> 1"
    and "\<forall>c\<in>set cs. c_tenantId c = t \<and> c_scheduledPostId c = p \<and> c_platform c = pf \<and>
           c_today c = day \<and> c_newId c \<notin> row_id ` set (post_analytics d)"
    and "cs \<noteq> []" and "e \<in> set eventTypes" and "all_fit cs d"
  shows "\<exists>r. key_rows (upa_all cs d) t p pf day = [r]
     \<and> counter_of e r = counter_before e d t p pf day + type_sum e cs"
proof -
  from assms(2) have a2: "\<forall>c\<in>set cs. c_tenantId c = t \<and> c_scheduledPostId c = p \<and>
      c_platform c = pf \<and> c_today c = day"
    and a3: "key_rows d t p pf day = [] \<longrightarrow>
           (\<forall>c\<in>set cs. c_newId c \<notin> row_id ` set (post_analytics d))"
    by simp_all
  from upa_all_invariant [OF assms(1) a2 a3 assms(4,5)] assms(3)
  have l: "length (key_rows (upa_all cs d) t p pf day) \<le> 1"
    and n: "key_rows (upa_all cs d) t p pf day \<noteq> []"
    and c: "counter_before e (upa_all cs d) t p pf day =
         counter_before e d t p pf day + type_sum e cs"
    by simp_all
  from l n obtain r where r: "key_rows (upa_all cs d) t p pf day = [r]"
    by (cases "key_rows (upa_all cs d) t p pf day") auto
  with c show ?thesis
    by (simp add: counter_before_single)
qed

lemma type_sum_mset: "mset cs' = mset cs \<Longrightarrow> type_sum e cs' = type_sum e cs"
proof -
  assume "mset cs' = mset cs"
  then have "mset (map c_eventValue (filter (\<lambda>c. c_eventType c = e) cs')) =
      mset (map c_eventValue (filter (\<lambda>c. c_eventType c = e) cs))"
    by simp
  then show ?thesis
    unfolding type_sum_def by (metis sum_mset_sum_list)
qed

text \<open>
  C2, as the code has it. Events of one natural key, applied one at a time in any order
  (any rearrangement \<open>cs'\<close> of the events \<open>cs\<close>) in which every write fits the column types
  of the table, leave exactly one row for the key, and each of its six raw counters is the
  counter the key had before (0 without a row) plus the sum of \<open>value\<close> over the events of
  the matching type. A single update whose write fits adds \<open>value\<close> to the counter that
  matches its event type and nothing to the others. The store is taken to hold at most
  one row for the key and to generate an id no row has yet.
\<close>

theorem counters_additive:
  assumes "length (key_rows d t p pf day) \<le> 1"
    and "\<forall>c\<in>set cs. c_tenantId c = t \<and> c_scheduledPostId c = p \<and> c_platform c = pf \<and>
           c_today c = day \<and> c_newId c \<notin> row_id ` set (post_analytics d)"
    and "cs \<noteq> []" and "mset cs' = mset cs" and "all_fit cs' d"
    and "e \<in> set eventTypes" and "c0 \<in> set cs"
  shows "(\<exists>r. key_rows (upa_all cs' d) t p pf day = [r]
            \<and> counter_of e r = counter_before e d t p pf day + type_sum e cs)
       \<and> (call_fits d c0 \<longrightarrow>
            (\<exists>r. key_rows (upa d c0) t p pf day = [r]
               \<and> counter_of e r = counter_before e d t p pf day
                    + (if c_eventType c0 = e then c_eventValue c0 else 0)))"
proof
  from assms(4) have s: "set cs' = set cs" by (rule mset_eq_setD)
  from assms(3,4) have n: "cs' \<noteq> []" by auto
  from assms(2) s have a: "\<forall>c\<in>set cs'. c_tenantId c = t \<and> c_scheduledPostId c = p \<and>
      c_platform c = pf \<and> c_today c = day \<and> c_newId c \<notin> row_id ` set (post_analytics d)"
    by simp
  from upa_all_counters [OF assms(1) a n assms(6,5)] type_sum_mset [OF assms(4), of e]
  show "\<exists>r. key_rows (upa_all cs' d) t p pf day = [r]
            \<and> counter_of e r = counter_before e d t p pf day + type_sum e cs"
    by simp
next
  show "call_fits d c0 \<longrightarrow>
            (\<exists>r. key_rows (upa d c0) t p pf day = [r]
               \<and> counter_of e r = counter_before e d t p pf day
                    + (if c_eventType c0 = e then c_eventValue c0 else 0))"
  proof
    assume f: "call_fits d c0"
    from assms(2,7) have a: "\<forall>c\<in>set [c0]. c_tenantId c = t \<and> c_scheduledPostId c = p \<and>
        c_platform c = pf \<and> c_today c = day \<and> c_newId c \<notin> row_id ` set (post_analytics d)"
      by simp
    from f have f1: "all_fit [c0] d" by simp
    from upa_all_counters [OF assms(1) a _ assms(6) f1]
    show "\<exists>r. key_rows (upa d c0) t p pf day = [r]
              \<and> counter_of e r = counter_before e d t p pf day
                   + (if c_eventType c0 = e then c_eventValue c0 else 0)"
      by (simp add: upa_all_def type_sum_Cons)
  qed
qed

lemma scenario_fits: "all_fit (rev scenario) (store [])" "call_fits (store []) (call ''like'' 50)"
  by code_simp+

theorem counters_additive_witness:
  "(\<exists>r. key_rows (upa_all (rev scenario) (store [])) tenant_a ''post-1'' ''instagram'' 12 = [r]
      \<and> counter_of ''like'' r = 50)
   \<and> (\<exists>r. key_rows (upa (store []) (call ''like'' 50)) tenant_a ''post-1'' ''instagram'' 12 = [r]
      \<and> counter_of ''like'' r = 50)"
proof -
  have 1: "length (key_rows (store []) tenant_a ''post-1'' ''instagram'' 12) \<le> 1"
    by (simp add: key_rows_def store_def)
  have 2: "\<forall>c\<in>set scenario. c_tenantId c = tenant_a \<and> c_scheduledPostId c = ''post-1'' \<and>
      c_platform c = ''instagram'' \<and> c_today c = 12 \<and>
      c_newId c \<notin> row_id ` set (post_analytics (store []))"
    by (simp add: scenario_def call_def store_def)
  have 3: "scenario \<noteq> []" by (simp add: scenario_def)
  have 4: "mset (rev scenario) = mset scenario" by simp
  have 5: "''like'' \<in> set eventTypes" by (simp add: eventTypes_def)
  have 6: "call ''like'' 50 \<in> set scenario" by (simp add: scenario_def)
  have 7: "type_sum ''like'' scenario = 50"
    by (simp add: type_sum_def scenario_def call_def)
  have 8: "counter_before ''like'' (store []) tenant_a ''post-1'' ''instagram'' 12 = 0"
    by (simp add: counter_before_def key_rows_def store_def)
  from counters_additive [OF 1 2 3 4 scenario_fits(1) 5 6] scenario_fits(2) show ?thesis
    by (simp add: 7 8 call_def)
qed

text \<open>
  The claim as worded fails where a write does not fit the columns. After a like of value
  50 has created the row, an impression of value 1 makes the engagement rate 5000, which
  DECIMAL(5,2) cannot hold: the store refuses the update, the updater does not look at the
  outcome, and the impression is lost; so are the two impressions after it. With the same
  events in the opposite order the three impressions are counted and the like is lost
  (its rate would be 1666.67).
\<close>

theorem refused_update_counterexample:
  "map impressions (key_rows (upa_all likes_first (store [])) tenant_a ''post-1'' ''instagram'' 12)
     = [0]
   \<and> map likes (key_rows (upa_all likes_first (store [])) tenant_a ''post-1'' ''instagram'' 12)
     = [50]
   \<and> type_sum ''impression'' likes_first = 3
   \<and> map impressions (key_rows (upa_all (rev likes_first) (store [])) tenant_a ''post-1''
       ''instagram'' 12) = [3]
   \<and> map likes (key_rows (upa_all (rev likes_first) (store [])) tenant_a ''post-1''
       ''instagram'' 12) = [0]
   \<and> type_sum ''like'' (rev likes_first) = 50"
  by code_simp

section \<open>One row per natural key\<close>

lemma filter_distinct_key:
  "distinct (map f xs) \<Longrightarrow> (\<And>x. x \<in> set xs \<Longrightarrow> P x \<Longrightarrow> f x = k) \<Longrightarrow>
     length (filter P xs) \<le> 1"
proof (induction xs)
  case Nil
  then show ?case by simp
next
  case (Cons x xs)
  show ?case
  proof (cases "P x")
    case True
    with Cons.prems have "f x = k" by simp
    with Cons.prems have "\<not> P y" if "y \<in> set xs" for y
      using that by (metis distinct.simps(2) image_eqI list.set_intros(2) list.simps(9) set_map)
    then have "filter P xs = []"
      by (simp add: filter_empty_conv)
    with True show ?thesis by simp
  next
    case False
    with Cons show ?thesis by simp
  qed
qed

lemma constraints_key_rows:
  assumes "constraints_hold (post_analytics d)"
  shows "length (key_rows d t p pf day) \<le> 1"
proof -
  let ?P = "\<lambda>r. tenant_id r = t \<and> scheduled_post_id r = Some p \<and> platform r = pf \<and> date r = day"
  have "key_rows d t p pf day =
      filter ?P [r \<leftarrow> post_analytics d. scheduled_post_id r \<noteq> None]"
    by (auto simp: key_rows_def intro: filter_cong)
  moreover have "length (filter ?P [r \<leftarrow> post_analytics d. scheduled_post_id r \<noteq> None]) \<le> 1"
    using assms
    by (intro filter_distinct_key [where f = natural_key and k = "(t, Some p, pf, day)"])
       (auto simp: constraints_hold_def natural_key_def)
  ultimately show ?thesis by simp
qed

lemma natural_key_spread [simp]: "natural_key (spread r u) = natural_key r"
  by (simp add: natural_key_def)

lemma update_by_id_constraints:
  "constraints_hold tbl \<Longrightarrow> constraints_hold (update_by_id i u tbl)"
proof -
  assume c: "constraints_hold tbl"
  let ?f = "\<lambda>r. if row_id r = i then spread r u else r"
  have 1: "map row_id (map ?f tbl) = map row_id tbl"
    by (induction tbl) simp_all
  have 2: "map natural_key [r \<leftarrow> map ?f tbl. scheduled_post_id r \<noteq> None] =
      map natural_key [r \<leftarrow> tbl. scheduled_post_id r \<noteq> None]"
    by (induction tbl) simp_all
  from c have "constraints_hold (map ?f tbl)"
    unfolding constraints_hold_def 1 2 .
  with c show ?thesis
    by (simp add: update_by_id_def)
qed

lemma insert_row_constraints:
  assumes "constraints_hold tbl" and "scheduled_post_id n \<noteq> None"
  shows "constraints_hold (insert_row n tbl)"
proof (cases "row_fits n \<and> \<not> list_ex (\<lambda>r. collides r n) tbl")
  case False
  with assms show ?thesis by (auto simp: insert_row_def)
next
  case True
  then have nc: "\<not> collides r n" if "r \<in> set tbl" for r
    using that by (auto simp: list_ex_iff)
  have "row_id n \<notin> row_id ` set tbl"
  proof
    assume "row_id n \<in> row_id ` set tbl"
    then obtain r where "r \<in> set tbl" "row_id r = row_id n" by auto
    with nc [of r] show False by (simp add: collides_def)
  qed
  moreover have "natural_key n \<notin> natural_key ` {r \<in> set tbl. scheduled_post_id r \<noteq> None}"
  proof
    assume "natural_key n \<in> natural_key ` {r \<in> set tbl. scheduled_post_id r \<noteq> None}"
    then obtain r where "r \<in> set tbl" "natural_key r = natural_key n" by auto
    with nc [of r] assms(2) show False by (simp add: collides_def natural_key_def)
  qed
  ultimately show ?thesis
    using assms True by (auto simp: insert_row_def constraints_hold_def)
qed

lemma upa_constraints:
  assumes "constraints_hold (post_analytics d)"
  shows "constraints_hold (post_analytics (upa d c))"
proof (cases "existing_row d (c_tenantId c) (c_scheduledPostId c) (c_platform c) (c_today c)")
  case None
  with assms show ?thesis
    by (simp add: upa_def updatePostAnalytics_def write_back_None insert_row_constraints)
next
  case (Some ex)
  with assms show ?thesis
    by (simp add: upa_def updatePostAnalytics_def write_back_Some update_by_id_constraints)
qed

lemma upa_rows:
  assumes "constraints_hold (post_analytics d)" and "r \<in> set (post_analytics (upa d c))"
  shows "r \<in> set (post_analytics d) \<or>
     (tenant_id r = c_tenantId c \<and> scheduled_post_id r = Some (c_scheduledPostId c) \<and>
      platform r = c_platform c \<and> date r = c_today c)"
proof (cases "existing_row d (c_tenantId c) (c_scheduledPostId c) (c_platform c) (c_today c)")
  case None
  with assms(2) have "r \<in> set (post_analytics d) \<or>
      r = inserted (c_today c) (c_newId c) d (c_tenantId c) (c_scheduledPostId c) (c_platform c)
            (c_eventType c) (c_eventValue c)"
    by (auto simp: upa_def updatePostAnalytics_def write_back_None insert_row_def
        split: if_splits)
  then show ?thesis by auto
next
  case (Some ex)
  then have k: "key_rows d (c_tenantId c) (c_scheduledPostId c) (c_platform c) (c_today c) = [ex]"
    by (simp add: existing_row_key_rows single_row_Some_iff)
  then have "ex \<in> set (key_rows d (c_tenantId c) (c_scheduledPostId c) (c_platform c) (c_today c))"
    by simp
  then have ex: "ex \<in> set (post_analytics d)" "tenant_id ex = c_tenantId c"
    "scheduled_post_id ex = Some (c_scheduledPostId c)" "platform ex = c_platform c"
    "date ex = c_today c"
    by (simp_all add: key_rows_def)
  show ?thesis
  proof (cases "updates_fit (full_updates (c_eventType c) (c_eventValue c) ex)")
    case False
    with assms(2) Some show ?thesis
      by (simp add: upa_def updatePostAnalytics_def write_back_Some update_by_id_refused)
  next
    case fit: True
    with assms(2) Some obtain r0 where r0: "r0 \<in> set (post_analytics d)"
      and r: "r = (if row_id r0 = row_id ex
                  then spread r0 (full_updates (c_eventType c) (c_eventValue c) ex) else r0)"
      by (auto simp: upa_def updatePostAnalytics_def write_back_Some update_by_id_def)
    show ?thesis
    proof (cases "row_id r0 = row_id ex")
      case True
      from assms(1) have "inj_on row_id (set (post_analytics d))"
        by (simp add: constraints_hold_def distinct_map)
      with True r0 ex(1) have "r0 = ex" by (auto dest: inj_onD)
      with r ex show ?thesis by simp
    next
      case False
      with r r0 show ?thesis by simp
    qed
  qed
qed

lemma write_back_constraints:
  "constraints_hold (post_analytics d) \<Longrightarrow>
     constraints_hold (post_analytics (write_back day newId d t p pf ety v existing))"
  by (cases existing)
     (simp_all add: write_back_Some write_back_None update_by_id_constraints
        insert_row_constraints)

lemma step_task_constraints:
  "constraints_hold (post_analytics d) \<Longrightarrow>
     constraints_hold (post_analytics (fst (step_task d tk)))"
  by (cases tk) (simp_all add: write_back_constraints)

lemma run_constraints:
  "constraints_hold (post_analytics d) \<Longrightarrow>
     constraints_hold (post_analytics (fst (run sched (d, ts))))"
proof (induction sched arbitrary: d ts)
  case Nil
  then show ?case by simp
next
  case (Cons i sched)
  show ?case
  proof (cases "i < length ts")
    case True
    from Cons.prems have "constraints_hold (post_analytics (fst (step_task d (ts ! i))))"
      by (rule step_task_constraints)
    from Cons.IH [OF this, of "ts[i := snd (step_task d (ts ! i))]"] True show ?thesis
      by (simp add: split_def Let_def)
  next
    case False
    with Cons show ?thesis by simp
  qed
qed

lemma upa_all_rows:
  assumes "constraints_hold (post_analytics d)"
  shows "constraints_hold (post_analytics (upa_all cs d))
       \<and> (\<forall>r\<in>set (post_analytics (upa_all cs d)).
            r \<in> set (post_analytics d) \<or>
            (\<exists>c\<in>set cs. tenant_id r = c_tenantId c \<and>
               scheduled_post_id r = Some (c_scheduledPostId c) \<and>
               platform r = c_platform c \<and> date r = c_today c))"
  using assms
proof (induction cs arbitrary: d)
  case Nil
  then show ?case by (simp add: upa_all_def)
next
  case (Cons c cs)
  from Cons.prems have c1: "constraints_hold (post_analytics (upa d c))"
    by (rule upa_constraints)
  from Cons.IH [OF c1] upa_rows [OF Cons.prems, of _ c]
  show ?case
    unfolding upa_all_Cons by (simp, blast)
qed

lemma row_fits_inserted:
  assumes "fits_integer v" and "length pf \<le> 50"
  shows "row_fits (inserted day newId d t p pf ety v)"
  using assms by (simp add: row_fits_inserted_iff)

lemma map_row_id_spread:
  "map row_id (map (\<lambda>r. if row_id r = i then spread r u else r) tbl) = map row_id tbl"
  by (induction tbl) simp_all

lemma map_row_id_update_by_id: "map row_id (update_by_id i u tbl) = map row_id tbl"
  by (simp add: update_by_id_def map_row_id_spread del: map_map)

lemma upa_in_place:
  assumes "key_rows d t p pf day = [ex]"
  shows "map row_id (post_analytics (updatePostAnalytics day newId d t p pf ety v)) =
           map row_id (post_analytics d)
       \<and> (\<exists>r. key_rows (updatePostAnalytics day newId d t p pf ety v) t p pf day = [r]
            \<and> row_id r = row_id ex)"
proof (cases "updates_fit (full_updates ety v ex)")
  case True
  with assms show ?thesis
    by (simp add: upa_Some map_row_id_update_by_id key_rows_update_by_id)
next
  case False
  with assms show ?thesis
    by (simp add: upa_Some update_by_id_refused)
qed

lemma upa_creates:
  assumes "key_rows d t p pf day = []" and "newId \<notin> row_id ` set (post_analytics d)"
    and "row_fits (inserted day newId d t p pf ety v)"
  shows "post_analytics (updatePostAnalytics day newId d t p pf ety v) =
           post_analytics d @ [inserted day newId d t p pf ety v]"
  using assms by (simp add: upa_None insert_row_fresh)

lemma upa_all_in_place:
  assumes "key_rows d t p pf day = [ex]"
    and "\<forall>c\<in>set cs. c_tenantId c = t \<and> c_scheduledPostId c = p \<and> c_platform c = pf \<and>
           c_today c = day"
  shows "map row_id (post_analytics (upa_all cs d)) = map row_id (post_analytics d)
       \<and> (\<exists>r. key_rows (upa_all cs d) t p pf day = [r] \<and> row_id r = row_id ex)"
  using assms
proof (induction cs arbitrary: d ex)
  case Nil
  then show ?case by (simp add: upa_all_def)
next
  case (Cons c cs)
  from Cons.prems(2) have key: "c_tenantId c = t" "c_scheduledPostId c = p" "c_platform c = pf"
    "c_today c = day" by simp_all
  from upa_in_place [OF Cons.prems(1), of "c_newId c" "c_eventType c" "c_eventValue c"]
  obtain r where ids: "map row_id (post_analytics (upa d c)) = map row_id (post_analytics d)"
    and r: "key_rows (upa d c) t p pf day = [r]" and rid: "row_id r = row_id ex"
    by (auto simp: upa_def key)
  from Cons.prems(2) have "\<forall>c\<in>set cs. c_tenantId c = t \<and> c_scheduledPostId c = p \<and>
      c_platform c = pf \<and> c_today c = day" by simp
  from Cons.IH [OF r this] ids rid show ?case
    by (simp add: upa_all_Cons)
qed

lemma upa_all_ids:
  assumes "length (key_rows d t p pf day) \<le> 1"
    and "\<forall>c\<in>set cs. c_tenantId c = t \<and> c_scheduledPostId c = p \<and> c_platform c = pf \<and>
           c_today c = day \<and> c_newId c \<notin> row_id ` set (post_analytics d) \<and>
           fits_integer (c_eventValue c)"
    and "length pf \<le> 50" and "cs \<noteq> []"
  shows "map row_id (post_analytics (upa_all cs d)) =
           map row_id (post_analytics d) @
             (case key_rows d t p pf day of [] \<Rightarrow> [c_newId (hd cs)] | ex # rest \<Rightarrow> [])
       \<and> (\<exists>r. key_rows (upa_all cs d) t p pf day = [r]
            \<and> row_id r =
                (case key_rows d t p pf day of [] \<Rightarrow> c_newId (hd cs) | ex # rest \<Rightarrow> row_id ex))"
proof (cases "key_rows d t p pf day")
  case (Cons ex rest)
  with assms(1) have k: "key_rows d t p pf day = [ex]" by simp
  from assms(2) have "\<forall>c\<in>set cs. c_tenantId c = t \<and> c_scheduledPostId c = p \<and>
      c_platform c = pf \<and> c_today c = day" by simp
  from upa_all_in_place [OF k this] k show ?thesis
    by simp
next
  case Nil
  from assms(4) obtain c cs0 where cs: "cs = c # cs0"
    by (cases cs) auto
  from assms(2) cs have key: "c_tenantId c = t" "c_scheduledPostId c = p" "c_platform c = pf"
    "c_today c = day" and fresh: "c_newId c \<notin> row_id ` set (post_analytics d)"
    and v: "fits_integer (c_eventValue c)"
    by simp_all
  let ?n = "inserted day (c_newId c) d t p pf (c_eventType c) (c_eventValue c)"
  from row_fits_inserted [OF v assms(3)] have "row_fits ?n" .
  from upa_creates [OF Nil fresh this]
  have tbl: "post_analytics (upa d c) = post_analytics d @ [?n]"
    by (simp add: upa_def key)
  from arg_cong [OF this, of "\<lambda>tbl. [r \<leftarrow> tbl. tenant_id r = t \<and> scheduled_post_id r = Some p \<and>
      platform r = pf \<and> date r = day]"] Nil
  have k1: "key_rows (upa d c) t p pf day = [?n]"
    by (simp add: key_rows_def)
  from assms(2) cs have "\<forall>c\<in>set cs0. c_tenantId c = t \<and> c_scheduledPostId c = p \<and>
      c_platform c = pf \<and> c_today c = day" by simp
  from upa_all_in_place [OF k1 this] tbl Nil cs show ?thesis
    by (simp add: upa_all_Cons)
qed

text \<open>
  C4. Take a table that satisfies its constraints and N \<open>\<ge>\<close> 1 events of one natural key
  (tenant, scheduled post, platform, day), applied one at a time; their values are
  INTEGER and the platform has at most 50 characters, as the event log demands, and the
  ids the store generates are new. Afterwards the key has exactly one row, with the UTC
  day of ingestion as its \<open>date\<close>. When the key had no row, the row is the one that the
  first event created (it bears the id generated then, and it is the one row the table
  has gained); when the key had a row, it is that row and the table has gained none. The
  later events changed it where it stands: when every write fits the column types, each
  counter is what the key had before plus the sum over the events of its type. Every
  other row is as it was. For events of whatever keys \<open>cs'\<close> the constraints stay in force:
  no natural key ever has more than one row, and a row that was created or changed
  carries the tenant, scheduled post, platform and day of one of the events. No natural
  key has more than one row either when the updaters interleave, in whatever schedule.
\<close>

theorem one_row_per_key:
  assumes "constraints_hold (post_analytics d)"
    and "\<forall>c\<in>set cs. c_tenantId c = t \<and> c_scheduledPostId c = p \<and> c_platform c = pf \<and>
           c_today c = day \<and> c_newId c \<notin> row_id ` set (post_analytics d) \<and>
           fits_integer (c_eventValue c)"
    and "length pf \<le> 50" and "cs \<noteq> []"
  shows "(\<exists>r. key_rows (upa_all cs d) t p pf day = [r] \<and> date r = day
            \<and> row_id r =
                (case key_rows d t p pf day of [] \<Rightarrow> c_newId (hd cs) | ex # rest \<Rightarrow> row_id ex)
            \<and> (all_fit cs d \<longrightarrow>
                 (\<forall>e\<in>set eventTypes.
                    counter_of e r = counter_before e d t p pf day + type_sum e cs)))
       \<and> map row_id (post_analytics (upa_all cs d)) =
           map row_id (post_analytics d) @
             (case key_rows d t p pf day of [] \<Rightarrow> [c_newId (hd cs)] | ex # rest \<Rightarrow> [])
       \<and> (\<forall>r\<in>set (post_analytics (upa_all cs d)).
            r \<in> set (post_analytics d) \<or>
            (tenant_id r = t \<and> scheduled_post_id r = Some p \<and> platform r = pf \<and> date r = day))
       \<and> constraints_hold (post_analytics (upa_all cs' d))
       \<and> length (key_rows (upa_all cs' d) t' p' pf' day') \<le> 1
       \<and> (\<forall>r\<in>set (post_analytics (upa_all cs' d)).
            r \<in> set (post_analytics d) \<or>
            (\<exists>c\<in>set cs'. tenant_id r = c_tenantId c \<and>
               scheduled_post_id r = Some (c_scheduledPostId c) \<and>
               platform r = c_platform c \<and> date r = c_today c))
       \<and> length (key_rows (fst (run sched (d, ts))) t' p' pf' day') \<le> 1"
proof -
  from constraints_key_rows [OF assms(1)] have l: "length (key_rows d t p pf day) \<le> 1" .
  from upa_all_ids [OF l assms(2,3,4)] obtain r
    where ids: "map row_id (post_analytics (upa_all cs d)) =
           map row_id (post_analytics d) @
             (case key_rows d t p pf day of [] \<Rightarrow> [c_newId (hd cs)] | ex # rest \<Rightarrow> [])"
      and r: "key_rows (upa_all cs d) t p pf day = [r]"
      and rid: "row_id r =
                (case key_rows d t p pf day of [] \<Rightarrow> c_newId (hd cs) | ex # rest \<Rightarrow> row_id ex)"
    by blast
  from r have "r \<in> set (key_rows (upa_all cs d) t p pf day)" by simp
  then have day: "date r = day" by (simp add: key_rows_def)
  from assms(2) have a: "\<forall>c\<in>set cs. c_tenantId c = t \<and> c_scheduledPostId c = p \<and>
      c_platform c = pf \<and> c_today c = day \<and> c_newId c \<notin> row_id ` set (post_analytics d)"
    by simp
  have cnt: "all_fit cs d \<longrightarrow>
      (\<forall>e\<in>set eventTypes. counter_of e r = counter_before e d t p pf day + type_sum e cs)"
  proof (intro impI ballI)
    fix e assume "all_fit cs d" and "e \<in> set eventTypes"
    from upa_all_counters [OF l a assms(4) this(2,1)] r
    show "counter_of e r = counter_before e d t p pf day + type_sum e cs"
      by simp
  qed
  have rows: "\<forall>r\<in>set (post_analytics (upa_all cs d)).
            r \<in> set (post_analytics d) \<or>
            (tenant_id r = t \<and> scheduled_post_id r = Some p \<and> platform r = pf \<and> date r = day)"
  proof
    fix x assume "x \<in> set (post_analytics (upa_all cs d))"
    with upa_all_rows [OF assms(1), of cs] have "x \<in> set (post_analytics d) \<or>
        (\<exists>c\<in>set cs. tenant_id x = c_tenantId c \<and> scheduled_post_id x = Some (c_scheduledPostId c) \<and>
           platform x = c_platform c \<and> date x = c_today c)"
      by blast
    with a show "x \<in> set (post_analytics d) \<or>
        (tenant_id x = t \<and> scheduled_post_id x = Some p \<and> platform x = pf \<and> date x = day)"
      by auto
  qed
  from upa_all_rows [OF assms(1), of cs']
  have g1: "constraints_hold (post_analytics (upa_all cs' d))"
    and g3: "\<forall>r\<in>set (post_analytics (upa_all cs' d)).
            r \<in> set (post_analytics d) \<or>
            (\<exists>c\<in>set cs'. tenant_id r = c_tenantId c \<and>
               scheduled_post_id r = Some (c_scheduledPostId c) \<and>
               platform r = c_platform c \<and> date r = c_today c)"
    by simp_all
  from constraints_key_rows [OF g1]
  have g2: "length (key_rows (upa_all cs' d) t' p' pf' day') \<le> 1" .
  from constraints_key_rows [OF run_constraints [OF assms(1)]]
  have g4: "length (key_rows (fst (run sched (d, ts))) t' p' pf' day') \<le> 1" .
  from r day rid cnt have "\<exists>r. key_rows (upa_all cs d) t p pf day = [r] \<and> date r = day
            \<and> row_id r =
                (case key_rows d t p pf day of [] \<Rightarrow> c_newId (hd cs) | ex # rest \<Rightarrow> row_id ex)
            \<and> (all_fit cs d \<longrightarrow>
                 (\<forall>e\<in>set eventTypes.
                    counter_of e r = counter_before e d t p pf day + type_sum e cs))"
    by blast
  with ids rows g1 g2 g3 g4 show ?thesis
    by (intro conjI)
qed

lemma scenario_fits_views: "all_fit scenario views_store"
  by code_simp

theorem one_row_per_key_witness:
  "(\<exists>r. key_rows (upa_all scenario views_store) tenant_a ''post-1'' ''instagram'' 12 = [r]
      \<and> date r = 12 \<and> row_id r = ''new''
      \<and> impressions r = 1000 \<and> clicks r = 20 \<and> likes r = 50 \<and> comments r = 10 \<and> shares r = 5)
   \<and> map row_id (post_analytics (upa_all scenario views_store)) = [''1'', ''2'', ''3'', ''4'', ''new'']
   \<and> constraints_hold (post_analytics (upa_all other_calls views_store))"
proof -
  have 1: "constraints_hold (post_analytics views_store)"
    by (simp add: constraints_hold_def views_store_def store_def row_def new_row_def
        natural_key_def)
  have 2: "\<forall>c\<in>set scenario. c_tenantId c = tenant_a \<and> c_scheduledPostId c = ''post-1'' \<and>
      c_platform c = ''instagram'' \<and> c_today c = 12 \<and>
      c_newId c \<notin> row_id ` set (post_analytics views_store) \<and> fits_integer (c_eventValue c)"
    by (simp add: scenario_def call_def views_store_def store_def row_def new_row_def
        fits_integer_def)
  have 3: "length ''instagram'' \<le> 50" by simp
  have 4: "scenario \<noteq> []" by (simp add: scenario_def)
  have k: "key_rows views_store tenant_a ''post-1'' ''instagram'' 12 = []"
    by (simp add: key_rows_def views_store_def store_def row_def new_row_def)
  have h: "c_newId (hd scenario) = ''new''"
    by (simp add: scenario_def call_def)
  have b: "counter_before e views_store tenant_a ''post-1'' ''instagram'' 12 = 0" for e
    by (simp add: counter_before_def k)
  have s: "type_sum ''impression'' scenario = 1000" "type_sum ''click'' scenario = 20"
    "type_sum ''like'' scenario = 50" "type_sum ''comment'' scenario = 10"
    "type_sum ''share'' scenario = 5"
    by (simp_all add: type_sum_def scenario_def call_def)
  have m: "map row_id (post_analytics views_store) = [''1'', ''2'', ''3'', ''4'']"
    by (simp add: views_store_def store_def row_def new_row_def)
  from one_row_per_key [OF 1 2 3 4, of other_calls]
  have ex: "\<exists>r. key_rows (upa_all scenario views_store) tenant_a ''post-1'' ''instagram'' 12 = [r]
      \<and> date r = 12 \<and> row_id r = ''new''
      \<and> (\<forall>e\<in>set eventTypes. counter_of e r = type_sum e scenario)"
    and ids: "map row_id (post_analytics (upa_all scenario views_store)) =
          [''1'', ''2'', ''3'', ''4'', ''new'']"
    and c: "constraints_hold (post_analytics (upa_all other_calls views_store))"
    using scenario_fits_views by (simp_all add: k h b m)
  from ex obtain r
    where r: "key_rows (upa_all scenario views_store) tenant_a ''post-1'' ''instagram'' 12 = [r]"
      and day: "date r = 12" and rid: "row_id r = ''new''"
      and cnt: "\<forall>e\<in>set eventTypes. counter_of e r = type_sum e scenario"
    by blast
  from cnt s have "impressions r = 1000 \<and> clicks r = 20 \<and> likes r = 50 \<and> comments r = 10
      \<and> shares r = 5"
    by (simp add: eventTypes_def counter_of_def)
  with r day rid ids c show ?thesis
    by blast
qed

section \<open>Updates that run concurrently\<close>

lemma upa_write_back:
  "write_back (c_today c) (c_newId c) d (c_tenantId c) (c_scheduledPostId c) (c_platform c)
     (c_eventType c) (c_eventValue c)
     (existing_row d (c_tenantId c) (c_scheduledPostId c) (c_platform c) (c_today c)) = upa d c"
  by (simp add: upa_def updatePostAnalytics_def)

lemma run_pair:
  assumes "i < length ts" and "ts ! i = Waiting c"
  shows "run (i # i # sched) (d, ts) = run sched (upa d c, ts[i := Finished])"
  using assms by (simp add: upa_write_back)

lemma run_serial_from:
  "length pre = k \<Longrightarrow>
     run (concat (map (\<lambda>i. [i, i]) [k..<k + length cs])) (d, pre @ map Waiting cs) =
       (upa_all cs d, pre @ replicate (length cs) Finished)"
proof (induction cs arbitrary: d pre k)
  case Nil
  then show ?case by (simp add: upa_all_def)
next
  case (Cons c cs)
  have "k < k + length (c # cs)" by simp
  from upt_conv_Cons [OF this]
  have u: "[k..<k + length (c # cs)] = k # [Suc k..<Suc k + length cs]"
    by simp
  have p: "run (k # k # concat (map (\<lambda>i. [i, i]) [Suc k..<Suc k + length cs]))
             (d, pre @ map Waiting (c # cs)) =
           run (concat (map (\<lambda>i. [i, i]) [Suc k..<Suc k + length cs]))
             (upa d c, (pre @ map Waiting (c # cs))[k := Finished])"
    using Cons.prems by (intro run_pair) (simp_all add: nth_append)
  have l: "(pre @ map Waiting (c # cs))[k := Finished] = (pre @ [Finished]) @ map Waiting cs"
    using Cons.prems by (simp add: list_update_append)
  from Cons.prems have n: "length (pre @ [Finished]) = Suc k" by simp
  have "run (concat (map (\<lambda>i. [i, i]) [k..<k + length (c # cs)]))
          (d, pre @ map Waiting (c # cs)) =
        run (k # k # concat (map (\<lambda>i. [i, i]) [Suc k..<Suc k + length cs]))
          (d, pre @ map Waiting (c # cs))"
    by (simp only: u list.map concat.simps append.simps)
  also have "\<dots> = run (concat (map (\<lambda>i. [i, i]) [Suc k..<Suc k + length cs]))
          (upa d c, (pre @ [Finished]) @ map Waiting cs)"
    by (simp only: p l)
  also have "\<dots> = (upa_all cs (upa d c), (pre @ [Finished]) @ replicate (length cs) Finished)"
    by (rule Cons.IH [OF n])
  also have "\<dots> = (upa_all (c # cs) d, pre @ replicate (length (c # cs)) Finished)"
    by (simp add: upa_all_Cons)
  finally show ?case .
qed

lemma run_serial:
  "run (serial (length cs)) (d, map Waiting cs) = (upa_all cs d, replicate (length cs) Finished)"
  using run_serial_from [of "[]" 0 cs d] by (simp add: serial_def)

lemma type_sum_ones:
  "\<forall>c\<in>set cs. c_eventType c = e \<and> c_eventValue c = 1 \<Longrightarrow> type_sum e cs = int (length cs)"
  by (induction cs) (simp_all add: type_sum_Cons)

lemma counter_of_like: "counter_of ''like'' r = likes r"
  by (simp add: counter_of_def)

text \<open>
  C3, as the code has it. The updater takes no lock and opens no transaction. When the
  updates for a natural key run one after another (each one's read and write complete
  before the next one reads) the schedule behaves as the sequence of calls. When moreover
  every write fits the column types of the table, the counter of each event type ends at
  what the key had before plus the sum of the values of the events of that type: N events
  of one type and of value 1 raise its counter by exactly N.
\<close>

theorem serial_updates_counted:
  assumes "length (key_rows d t p pf day) \<le> 1"
    and "\<forall>c\<in>set cs. c_tenantId c = t \<and> c_scheduledPostId c = p \<and> c_platform c = pf \<and>
           c_today c = day \<and> c_newId c \<notin> row_id ` set (post_analytics d)"
    and "cs \<noteq> []" and "all_fit cs d" and "e \<in> set eventTypes"
  shows "run (serial (length cs)) (d, map Waiting cs) =
           (upa_all cs d, replicate (length cs) Finished)
       \<and> (\<exists>r. key_rows (fst (run (serial (length cs)) (d, map Waiting cs))) t p pf day = [r]
            \<and> counter_of e r = counter_before e d t p pf day + type_sum e cs
            \<and> ((\<forall>c\<in>set cs. c_eventType c = e \<and> c_eventValue c = 1) \<longrightarrow>
                 counter_of e r = counter_before e d t p pf day + int (length cs)))"
proof -
  from upa_all_counters [OF assms(1,2,3,5,4)] obtain r
    where r: "key_rows (upa_all cs d) t p pf day = [r]"
      and c: "counter_of e r = counter_before e d t p pf day + type_sum e cs"
    by blast
  have "(\<forall>c\<in>set cs. c_eventType c = e \<and> c_eventValue c = 1) \<longrightarrow>
      counter_of e r = counter_before e d t p pf day + int (length cs)"
    using c type_sum_ones [of cs e] by simp
  with r c show ?thesis
    by (simp add: run_serial)
qed

lemma likes_fit: "all_fit [like1, like2] ties_store"
  by code_simp

theorem serial_updates_counted_witness:
  "\<exists>r. key_rows (fst (run (serial 2) (ties_store, [Waiting like1, Waiting like2])))
          tenant_a ''post-1'' ''instagram'' 12 = [r]
     \<and> likes r = 24"
proof -
  have k: "key_rows ties_store tenant_a ''post-1'' ''instagram'' 12 =
      [(row ''1'' tenant_a ''instagram'' 12)
         \<lparr>likes := 22, impressions := 160, engagement_rate := 55 / 4\<rparr>]"
    by (simp add: key_rows_def ties_store_def store_def row_def new_row_def)
  have 1: "length (key_rows ties_store tenant_a ''post-1'' ''instagram'' 12) \<le> 1"
    by (simp add: k)
  have 2: "\<forall>c\<in>set [like1, like2]. c_tenantId c = tenant_a \<and> c_scheduledPostId c = ''post-1'' \<and>
      c_platform c = ''instagram'' \<and> c_today c = 12 \<and>
      c_newId c \<notin> row_id ` set (post_analytics ties_store)"
    by (simp add: like1_def like2_def call_def ties_store_def store_def row_def new_row_def)
  have 3: "\<forall>c\<in>set [like1, like2]. c_eventType c = ''like'' \<and> c_eventValue c = 1"
    by (simp add: like1_def like2_def call_def)
  have 4: "counter_before ''like'' ties_store tenant_a ''post-1'' ''instagram'' 12 = 22"
    by (simp add: counter_before_def k counter_of_def row_def new_row_def)
  have 5: "[like1, like2] \<noteq> []" by simp
  have 6: "''like'' \<in> set eventTypes" by (simp add: eventTypes_def)
  have n: "length [like1, like2] = 2" by simp
  from serial_updates_counted [OF 1 2 5 likes_fit 6, THEN conjunct2, unfolded n 4] 3
  show ?thesis
    by (auto simp: counter_of_like)
qed

text \<open>
  Atomicity per natural key does not hold: when two updaters both read before either
  writes, one increment is lost. From a row with 22 likes two likes leave 23, and for a
  key without a row two likes leave 1 (the second insert is refused by the UNIQUE
  constraint and the refusal is not looked at).
\<close>

theorem lost_update_counterexample:
  "map likes (key_rows (fst (run [0, 1, 0, 1] (ties_store, [Waiting like1, Waiting like2])))
      tenant_a ''post-1'' ''instagram'' 12) = [23]
   \<and> map likes (key_rows (fst (run [0, 1, 0, 1] (store [], [Waiting like1, Waiting like2])))
      tenant_a ''post-1'' ''instagram'' 12) = [1]"
  by code_simp

section \<open>Tenant isolation\<close>

lemma matches_tenant: "matches A s e pf r \<Longrightarrow> tenant_id r = A"
  by (simp add: matches_def)

lemma filter_matches_tenant:
  "[r \<leftarrow> tbl. matches A s e pf r] = [r \<leftarrow> [r \<leftarrow> tbl. tenant_id r = A]. matches A s e pf r]"
  by (auto simp: matches_tenant intro: filter_cong)

lemma matched_same:
  assumes "[r \<leftarrow> post_analytics d'. tenant_id r = A] = [r \<leftarrow> post_analytics d. tenant_id r = A]"
  shows "[r \<leftarrow> post_analytics d'. matches A s e pf r] = [r \<leftarrow> post_analytics d. matches A s e pf r]"
  using assms filter_matches_tenant [of A s e pf "post_analytics d'"]
    filter_matches_tenant [of A s e pf "post_analytics d"]
  by simp

lemma tenantUser_cong: "tenant_users d' = tenant_users d \<Longrightarrow> tenantUser d' = tenantUser d"
  by (intro ext) (simp add: tenantUser_def)

lemma format_post_cong:
  "content_items d' = content_items d \<Longrightarrow> scheduled_posts d' = scheduled_posts d \<Longrightarrow>
     format_post d' = format_post d"
  by (intro ext) (simp add: format_post_def cong: option.case_cong)

lemma GET_analytics_same:
  assumes "[r \<leftarrow> post_analytics d'. tenant_id r = A] = [r \<leftarrow> post_analytics d. tenant_id r = A]"
    and "tenant_users d' = tenant_users d" and "q_tenantId q = Some A"
  shows "GET_analytics d' u q err = GET_analytics d u q err"
  using assms(3) matched_same [OF assms(1)] tenantUser_cong [OF assms(2)]
  by (simp add: GET_analytics_def cong: option.case_cong if_cong)

lemma GET_top_posts_same:
  assumes "[r \<leftarrow> post_analytics d'. tenant_id r = A] = [r \<leftarrow> post_analytics d. tenant_id r = A]"
    and "tenant_users d' = tenant_users d" and "content_items d' = content_items d"
    and "scheduled_posts d' = scheduled_posts d" and "tq_tenantId tq = Some A"
  shows "GET_top_posts d' u tq err = GET_top_posts d u tq err"
  using assms(5) matched_same [OF assms(1)] tenantUser_cong [OF assms(2)]
    format_post_cong [OF assms(3,4)]
  by (simp add: GET_top_posts_def topPosts_def cong: option.case_cong if_cong)

lemma order_desc_set [simp]: "set (order_desc col rows) = set rows"
  by (simp add: order_desc_def)

lemma GET_analytics_records:
  assumes "q_tenantId q = Some A" and "GET_analytics d u q err = Inr ov" and "r \<in> set (records ov)"
  shows "r \<in> set (post_analytics d) \<and> tenant_id r = A"
proof -
  from assms(1,2) have "records ov = order_desc (\<lambda>r. of_nat (date r))
      [r \<leftarrow> post_analytics d. matches A (q_startDate q) (q_endDate q) (q_platform q) r]"
    by (auto simp: GET_analytics_def Let_def split: option.splits if_splits)
  with assms(3) show ?thesis
    by (auto simp: matches_tenant)
qed

lemma GET_top_posts_rows:
  assumes "tq_tenantId tq = Some A" and "GET_top_posts d u tq err = Inr ps"
  shows "\<exists>rows. ps = map (format_post d) rows \<and>
     (\<forall>r\<in>set rows. r \<in> set (post_analytics d) \<and> tenant_id r = A)"
proof -
  let ?rows = "topPosts d A (tq_metric tq) (case tq_limit tq of None \<Rightarrow> 10 | Some n \<Rightarrow> n)
      (tq_platform tq) (tq_startDate tq) (tq_endDate tq)"
  from assms have "ps = map (format_post d) ?rows"
    by (auto simp: GET_top_posts_def Let_def split: option.splits if_splits)
  moreover have "r \<in> set (post_analytics d) \<and> tenant_id r = A" if "r \<in> set ?rows" for r
  proof -
    from that have "r \<in> set [r \<leftarrow> post_analytics d.
        matches A (tq_startDate tq) (tq_endDate tq) (tq_platform tq) r]"
      unfolding topPosts_def by (auto dest: in_set_takeD)
    then show ?thesis by (auto simp: matches_tenant)
  qed
  ultimately show ?thesis by blast
qed

lemma upa_other_fields [simp]:
  "tenant_users (upa d c) = tenant_users d" "content_items (upa d c) = content_items d"
  "scheduled_posts (upa d c) = scheduled_posts d" "analytics_events (upa d c) = analytics_events d"
  by (cases "existing_row d (c_tenantId c) (c_scheduledPostId c) (c_platform c) (c_today c)";
      simp add: upa_def updatePostAnalytics_def write_back_Some write_back_None)+

lemma upa_all_other_fields [simp]:
  "tenant_users (upa_all cs d) = tenant_users d" "content_items (upa_all cs d) = content_items d"
  "scheduled_posts (upa_all cs d) = scheduled_posts d"
proof -
  show "tenant_users (upa_all cs d) = tenant_users d"
    by (induction cs arbitrary: d) (simp_all add: upa_all_def)
  show "content_items (upa_all cs d) = content_items d"
    by (induction cs arbitrary: d) (simp_all add: upa_all_def)
  show "scheduled_posts (upa_all cs d) = scheduled_posts d"
    by (induction cs arbitrary: d) (simp_all add: upa_all_def)
qed

lemma upa_other_tenant:
  assumes "constraints_hold (post_analytics d)" and "c_tenantId c \<noteq> A"
  shows "[r \<leftarrow> post_analytics (upa d c). tenant_id r = A] = [r \<leftarrow> post_analytics d. tenant_id r = A]"
proof (cases "existing_row d (c_tenantId c) (c_scheduledPostId c) (c_platform c) (c_today c)")
  case None
  with assms(2) show ?thesis
    by (simp add: upa_def updatePostAnalytics_def write_back_None insert_row_def)
next
  case (Some ex)
  then have k: "key_rows d (c_tenantId c) (c_scheduledPostId c) (c_platform c) (c_today c) = [ex]"
    by (simp add: existing_row_key_rows single_row_Some_iff)
  then have "ex \<in> set (key_rows d (c_tenantId c) (c_scheduledPostId c) (c_platform c) (c_today c))"
    by simp
  then have ex: "ex \<in> set (post_analytics d)" "tenant_id ex = c_tenantId c"
    by (simp_all add: key_rows_def)
  have u: "post_analytics (upa d c) =
      update_by_id (row_id ex) (full_updates (c_eventType c) (c_eventValue c) ex) (post_analytics d)"
    using Some by (simp add: upa_def updatePostAnalytics_def write_back_Some)
  from assms(1) have inj: "inj_on row_id (set (post_analytics d))"
    by (simp add: constraints_hold_def distinct_map)
  let ?f = "\<lambda>r. if row_id r = row_id ex
      then spread r (full_updates (c_eventType c) (c_eventValue c) ex) else r"
  have "[r \<leftarrow> map ?f (post_analytics d). tenant_id r = A] =
      map ?f [r \<leftarrow> post_analytics d. tenant_id r = A]"
    by (simp add: filter_map o_def if_distrib cong: if_cong)
  also have "\<dots> = [r \<leftarrow> post_analytics d. tenant_id r = A]"
  proof (rule map_idI)
    fix r assume "r \<in> set [r \<leftarrow> post_analytics d. tenant_id r = A]"
    then have r: "r \<in> set (post_analytics d)" "tenant_id r = A" by simp_all
    with ex assms(2) have "r \<noteq> ex" by auto
    with inj r(1) ex(1) have "row_id r \<noteq> row_id ex" by (auto dest: inj_onD)
    then show "?f r = r" by simp
  qed
  finally show ?thesis
    by (simp add: u update_by_id_def)
qed

lemma upa_all_other_tenant:
  assumes "constraints_hold (post_analytics d)" and "\<forall>c\<in>set cs. c_tenantId c \<noteq> A"
  shows "[r \<leftarrow> post_analytics (upa_all cs d). tenant_id r = A] =
           [r \<leftarrow> post_analytics d. tenant_id r = A]"
  using assms
proof (induction cs arbitrary: d)
  case Nil
  then show ?case by (simp add: upa_all_def)
next
  case (Cons c cs)
  from Cons.prems have "constraints_hold (post_analytics (upa d c))"
    by (simp add: upa_constraints)
  with Cons show ?case
    by (simp add: upa_all_Cons upa_other_tenant)
qed

text \<open>
  C5. Take two stores that hold the same rows of tenant A, in the same order, and the same
  memberships and lookup tables; they may differ in every row of any other tenant and in
  the whole event log. In particular the second store may be the first one after any
  number of updates for events of other tenants, whatever scheduled posts those events
  name. Then the overview and the top posts requested for tenant A are answered
  identically on both, and every row in the answers is a row of tenant A.
\<close>

theorem tenant_isolation:
  assumes "[r \<leftarrow> post_analytics d'. tenant_id r = A] = [r \<leftarrow> post_analytics d. tenant_id r = A]
           \<or> (constraints_hold (post_analytics d) \<and> d' = upa_all cs d \<and>
               (\<forall>c\<in>set cs. c_tenantId c \<noteq> A))"
    and "tenant_users d' = tenant_users d" and "content_items d' = content_items d"
    and "scheduled_posts d' = scheduled_posts d"
    and "q_tenantId q = Some A" and "tq_tenantId tq = Some A"
  shows "GET_analytics d' u q err = GET_analytics d u q err
       \<and> GET_top_posts d' u tq err = GET_top_posts d u tq err
       \<and> (\<forall>ov. GET_analytics d u q err = Inr ov \<longrightarrow>
            (\<forall>r\<in>set (records ov). r \<in> set (post_analytics d) \<and> tenant_id r = A))
       \<and> (\<forall>ps. GET_top_posts d u tq err = Inr ps \<longrightarrow>
            (\<exists>rows. ps = map (format_post d) rows \<and>
               (\<forall>r\<in>set rows. r \<in> set (post_analytics d) \<and> tenant_id r = A)))"
proof -
  from assms(1) have same:
    "[r \<leftarrow> post_analytics d'. tenant_id r = A] = [r \<leftarrow> post_analytics d. tenant_id r = A]"
    using upa_all_other_tenant [of d cs A] by blast
  show ?thesis
    using GET_analytics_same [OF same assms(2,5)] GET_top_posts_same [OF same assms(2,3,4,6)]
      GET_analytics_records [OF assms(5)] GET_top_posts_rows [OF assms(6)]
    by blast
qed

theorem tenant_isolation_witness:
  "GET_analytics crowded_store (Some ''user-a'') all_query False =
     GET_analytics views_store (Some ''user-a'') all_query False
   \<and> GET_top_posts crowded_store (Some ''user-a'') top_views_query False =
     GET_top_posts views_store (Some ''user-a'') top_views_query False
   \<and> GET_analytics (upa_all other_calls views_store) (Some ''user-a'') all_query False =
     GET_analytics views_store (Some ''user-a'') all_query False
   \<and> GET_top_posts (upa_all other_calls views_store) (Some ''user-a'') top_views_query False =
     GET_top_posts views_store (Some ''user-a'') top_views_query False"
proof -
  have 1: "[r \<leftarrow> post_analytics crowded_store. tenant_id r = tenant_a] =
      [r \<leftarrow> post_analytics views_store. tenant_id r = tenant_a]"
    by (simp add: crowded_store_def views_store_def store_def row_def new_row_def tenant_a_def
        tenant_b_def)
  have 2: "tenant_users crowded_store = tenant_users views_store"
    and 3: "content_items crowded_store = content_items views_store"
    and 4: "scheduled_posts crowded_store = scheduled_posts views_store"
    by (simp_all add: crowded_store_def views_store_def store_def)
  have 5: "q_tenantId all_query = Some tenant_a"
    by (simp add: all_query_def)
  have 6: "tq_tenantId top_views_query = Some tenant_a"
    by (simp add: top_views_query_def)
  have 7: "constraints_hold (post_analytics views_store)"
    by (simp add: constraints_hold_def views_store_def store_def row_def new_row_def
        natural_key_def)
  have 8: "\<forall>c\<in>set other_calls. c_tenantId c \<noteq> tenant_a"
    by (simp add: other_calls_def call_def tenant_a_def tenant_b_def)
  from tenant_isolation [OF disjI1 [OF 1] 2 3 4 5 6]
    tenant_isolation [where d' = "upa_all other_calls views_store" and d = views_store
      and cs = other_calls, OF disjI2 _ _ _ 5 6] 7 8
  show ?thesis
    by simp
qed

section \<open>The error of binary64 rounding\<close>

lemma pow2_powi: "pow2 k = 2 powi k"
  by (auto simp: pow2_def power_int_def inverse_eq_divide power_one_over)

lemma pow2_pos [simp]: "0 < pow2 k"
  by (simp add: pow2_powi)

lemma pow2_nonzero [simp]: "pow2 k \<noteq> 0"
  by (simp add: pow2_powi)

lemma pow2_add: "pow2 (a + b) = pow2 a * pow2 b"
  by (simp add: pow2_powi power_int_add)

lemma pow2_nat: "0 \<le> k \<Longrightarrow> pow2 k = 2 ^ nat k"
  by (simp add: pow2_def)

lemma ilog2_bounds:
  assumes "0 < x"
  shows "pow2 (ilog2 x) \<le> x" and "x < pow2 (ilog2 x + 1)"
proof -
  obtain n d where q: "quotient_of x = (n, d)" by (cases "quotient_of x")
  then have d: "0 < d" by (rule quotient_of_denom_pos)
  from q have x: "x = of_int n / of_int d" by (rule quotient_of_div)
  with assms d have n: "0 < n" by (simp add: zero_less_divide_iff)
  define a where "a = bitlen n"
  define b where "b = bitlen d"
  from n d have a1: "1 \<le> a" and b1: "1 \<le> b"
    by (simp_all add: a_def b_def bitlen_alt_def)
  from bitlen_bounds [OF n] have nb: "2 ^ nat (a - 1) \<le> n" "n < 2 ^ nat a"
    by (simp_all add: a_def)
  from bitlen_bounds [OF d] have db: "2 ^ nat (b - 1) \<le> d" "d < 2 ^ nat b"
    by (simp_all add: b_def)
  have cast: "(of_int (2 ^ k) :: rat) = 2 ^ k" for k :: nat
    by simp
  have nb': "pow2 (a - 1) \<le> of_int n" "(of_int n :: rat) < pow2 a"
  proof -
    from nb(1) have "(of_int (2 ^ nat (a - 1)) :: rat) \<le> of_int n"
      by (simp only: of_int_le_iff)
    then show "pow2 (a - 1) \<le> of_int n"
      using a1 by (simp only: cast pow2_def) simp
    from nb(2) have "(of_int n :: rat) < of_int (2 ^ nat a)"
      by (simp only: of_int_less_iff)
    then show "(of_int n :: rat) < pow2 a"
      using a1 by (simp only: cast pow2_def) simp
  qed
  have db': "pow2 (b - 1) \<le> of_int d" "(of_int d :: rat) < pow2 b"
  proof -
    from db(1) have "(of_int (2 ^ nat (b - 1)) :: rat) \<le> of_int d"
      by (simp only: of_int_le_iff)
    then show "pow2 (b - 1) \<le> of_int d"
      using b1 by (simp only: cast pow2_def) simp
    from db(2) have "(of_int d :: rat) < of_int (2 ^ nat b)"
      by (simp only: of_int_less_iff)
    then show "(of_int d :: rat) < pow2 b"
      using b1 by (simp only: cast pow2_def) simp
  qed
  have up: "x < pow2 (a - b + 1)"
  proof -
    have "of_int n < pow2 (a - b + 1) * pow2 (b - 1)"
      using nb'(2) by (simp flip: pow2_add)
    also have "\<dots> \<le> pow2 (a - b + 1) * of_int d"
      using db'(1) by (simp add: mult_left_mono less_imp_le)
    finally show ?thesis
      using d by (simp add: x pos_divide_less_eq)
  qed
  have lo: "pow2 (a - b - 1) \<le> x"
  proof -
    have "pow2 (a - b - 1) * of_int d \<le> pow2 (a - b - 1) * pow2 b"
      using db'(2) by (simp add: mult_left_mono less_imp_le)
    also have "\<dots> = pow2 (a - 1)"
      by (simp flip: pow2_add)
    also have "\<dots> \<le> of_int n" by (rule nb'(1))
    finally show ?thesis
      using d by (simp add: x pos_le_divide_eq)
  qed
  have i: "ilog2 x = (if pow2 (a - b) \<le> x then a - b else a - b - 1)"
    by (simp add: ilog2_def q a_def b_def)
  show "pow2 (ilog2 x) \<le> x"
    using lo by (simp add: i)
  show "x < pow2 (ilog2 x + 1)"
    using up by (simp add: i not_le)
qed

lemma round_half_even_err: "\<bar>of_int (round_half_even y) - y\<bar> \<le> 1 / 2"
proof -
  have "of_int \<lfloor>y\<rfloor> \<le> y" "y < of_int \<lfloor>y\<rfloor> + 1"
    by linarith+
  then show ?thesis
    by (auto simp: round_half_even_def Let_def abs_le_iff)
qed

lemma fl_pos_err:
  assumes "0 < x"
  shows "\<bar>fl_pos x - x\<bar> \<le> x / 2 ^ 53"
proof -
  define e where "e = ilog2 x - 52"
  have "\<bar>fl_pos x - x\<bar> = \<bar>of_int (round_half_even (x / pow2 e)) - x / pow2 e\<bar> * pow2 e"
  proof -
    have "fl_pos x - x = (of_int (round_half_even (x / pow2 e)) - x / pow2 e) * pow2 e"
      by (simp add: fl_pos_def e_def Let_def left_diff_distrib)
    then show ?thesis
      by (simp add: abs_mult abs_of_pos)
  qed
  also have "\<dots> \<le> 1 / 2 * pow2 e"
    by (intro mult_right_mono round_half_even_err) (simp add: less_imp_le)
  also have "\<dots> = pow2 (ilog2 x) / 2 ^ 53"
    by (simp add: e_def pow2_powi power_int_diff)
  also have "\<dots> \<le> x / 2 ^ 53"
    using ilog2_bounds(1) [OF assms] by (simp add: divide_right_mono)
  finally show ?thesis .
qed

lemma fl_err: "\<bar>fl x - x\<bar> \<le> \<bar>x\<bar> / 2 ^ 53"
proof -
  consider "x = 0" | "0 < x" | "x < 0" by linarith
  then show ?thesis
  proof cases
    case 1
    then show ?thesis by (simp add: fl_def)
  next
    case 2
    then show ?thesis using fl_pos_err [of x] by (simp add: fl_def)
  next
    case 3
    then show ?thesis using fl_pos_err [of "- x"] by (simp add: fl_def)
  qed
qed


lemma nearest_of_close:
  fixes N m imp :: int and Y :: rat
  assumes imp: "0 < imp"
    and N: "of_int N \<le> Y + 1 / 2" "Y + 1 / 2 < of_int N + 1"
    and close: "of_int imp * \<bar>Y - of_int m / of_int imp\<bar> < 1 / 2"
  shows "\<bar>of_int N - of_int m / of_int imp\<bar> \<le> (1 / 2 :: rat)"
proof -
  define I :: rat where "I = of_int imp"
  define X :: rat where "X = of_int m / I"
  have I: "0 < I" using imp by (simp add: I_def)
  have IX: "I * X = of_int m" using I by (simp add: X_def)
  define M where "M = N * imp - m"
  have M: "of_int M = I * (of_int N - X)"
    using IX by (simp add: M_def I_def right_diff_distrib mult.commute)
  have "I * (of_int N - X) = I * (of_int N - Y) + I * (Y - X)"
    by (simp add: algebra_simps)
  moreover have "\<bar>I * (of_int N - Y)\<bar> \<le> I * (1 / 2)"
  proof -
    from N have "\<bar>of_int N - Y\<bar> \<le> 1 / 2" by linarith
    then have "I * \<bar>of_int N - Y\<bar> \<le> I * (1 / 2)"
      using I by (intro mult_left_mono) simp_all
    then show ?thesis using I by (simp add: abs_mult abs_of_pos)
  qed
  moreover have "\<bar>I * (Y - X)\<bar> < 1 / 2"
    using close I by (simp add: abs_mult abs_of_pos I_def X_def)
  ultimately have "\<bar>of_int M :: rat\<bar> < I * (1 / 2) + 1 / 2"
    unfolding M by linarith
  then have "2 * \<bar>of_int M :: rat\<bar> < of_int imp + 1"
    by (simp add: I_def)
  then have "(of_int (2 * \<bar>M\<bar>) :: rat) < of_int (imp + 1)"
    by simp
  then have "2 * \<bar>M\<bar> < imp + 1"
    by (simp only: of_int_less_iff)
  then have "2 * \<bar>M\<bar> \<le> imp" by simp
  then have "(of_int (2 * \<bar>M\<bar>) :: rat) \<le> of_int imp"
    by (simp only: of_int_le_iff)
  then have "2 * \<bar>of_int M :: rat\<bar> \<le> I"
    by (simp add: I_def)
  then have "\<bar>I * (of_int N - X)\<bar> \<le> I * (1 / 2)"
    unfolding M by linarith
  then have "I * \<bar>of_int N - X\<bar> \<le> I * (1 / 2)"
    using I by (simp add: abs_mult abs_of_pos)
  then have "\<bar>of_int N - X\<bar> \<le> 1 / 2"
    using I by (simp only: mult_le_cancel_left_pos)
  then show ?thesis by (simp add: X_def I_def)
qed


lemma roundoff_bounds: "0 < roundoff" "roundoff \<le> 1"
  by (simp_all add: roundoff_def)

lemma fl_err_roundoff: "\<bar>fl x - x\<bar> \<le> \<bar>x\<bar> * roundoff"
  using fl_err [of x] by (simp add: roundoff_def)

lemma fl_nonneg: "0 \<le> x \<Longrightarrow> 0 \<le> fl x"
proof -
  assume x: "0 \<le> x"
  then have "x * roundoff \<le> x" using roundoff_bounds by (simp add: mult_left_le)
  with fl_err_roundoff [of x] x show ?thesis by linarith
qed

lemma fl_err_le: "0 \<le> x \<Longrightarrow> x \<le> B \<Longrightarrow> \<bar>fl x - x\<bar> \<le> B * roundoff"
proof -
  assume "0 \<le> x" "x \<le> B"
  then have "\<bar>x\<bar> * roundoff \<le> B * roundoff"
    using roundoff_bounds by (simp add: mult_right_mono)
  with fl_err_roundoff [of x] show ?thesis by linarith
qed

lemma sum_step_err:
  fixes C T :: rat
  assumes C: "0 \<le> C" and c: "0 \<le> c" "c \<le> C"
    and s: "0 \<le> s" "\<bar>s - S\<bar> \<le> e" and S: "S \<le> T" and e: "e \<le> T"
  shows "0 \<le> fl (s + fl c)"
    and "\<bar>fl (s + fl c) - (S + c)\<bar> \<le> e + (2 * T + 3 * C) * roundoff"
proof -
  have t0: "0 \<le> fl c" using c by (simp add: fl_nonneg)
  have t: "\<bar>fl c - c\<bar> \<le> C * roundoff" using c by (rule fl_err_le)
  have Cu: "C * roundoff \<le> C" using C roundoff_bounds by (simp add: mult_left_le)
  have y0: "0 \<le> s + fl c" using s t0 by simp
  have yb: "s + fl c \<le> 2 * T + 2 * C"
    using s(2) S e t c Cu by linarith
  show "0 \<le> fl (s + fl c)" using y0 by (rule fl_nonneg)
  have "\<bar>fl (s + fl c) - (s + fl c)\<bar> \<le> (2 * T + 2 * C) * roundoff"
    using y0 yb by (rule fl_err_le)
  moreover have "(2 * T + 3 * C) * roundoff = (2 * T + 2 * C) * roundoff + C * roundoff"
    by (simp add: algebra_simps)
  ultimately show "\<bar>fl (s + fl c) - (S + c)\<bar> \<le> e + (2 * T + 3 * C) * roundoff"
    using s(2) t by linarith
qed

lemma sum_fold_err:
  fixes C T :: rat
  assumes "0 \<le> C" and "\<forall>r\<in>set rows. 0 \<le> col r \<and> col r \<le> C"
    and "0 \<le> s" and "\<bar>s - S\<bar> \<le> e" and "0 \<le> S"
    and "S + C * of_nat (length rows) \<le> T"
    and "e + (2 * T + 3 * C) * roundoff * of_nat (length rows) \<le> T"
  shows "0 \<le> foldl (\<lambda>sum r. fl (sum + fl (col r))) s rows
     \<and> \<bar>foldl (\<lambda>sum r. fl (sum + fl (col r))) s rows - (S + sum_list (map col rows))\<bar>
         \<le> e + (2 * T + 3 * C) * roundoff * of_nat (length rows)"
  using assms(2-)
proof (induction rows arbitrary: s S e)
  case Nil
  then show ?case by simp
next
  case (Cons r rows)
  define E where "E = (2 * T + 3 * C) * roundoff"
  define L :: rat where "L = of_nat (length rows)"
  from Cons.prems(1) have c: "0 \<le> col r" "col r \<le> C" by simp_all
  have L0: "0 \<le> L" by (simp add: L_def)
  have CL: "0 \<le> C * L" using \<open>0 \<le> C\<close> L0 by simp
  have p5: "S + (C * L + C) \<le> T"
    using Cons.prems(5) by (simp add: L_def algebra_simps)
  have T0: "0 \<le> T" using p5 CL Cons.prems(4) \<open>0 \<le> C\<close> by linarith
  have E0: "0 \<le> E" using T0 \<open>0 \<le> C\<close> roundoff_bounds by (simp add: E_def)
  have EL: "0 \<le> E * L" using E0 L0 by simp
  have p6: "e + (E * L + E) \<le> T"
    using Cons.prems(6) by (simp add: L_def E_def algebra_simps)
  have S: "S \<le> T" using p5 CL \<open>0 \<le> C\<close> by linarith
  have e: "e \<le> T" using p6 EL E0 by linarith
  note st = sum_step_err [OF \<open>0 \<le> C\<close> c Cons.prems(2,3) S e, folded E_def]
  have "0 \<le> foldl (\<lambda>sum r. fl (sum + fl (col r))) (fl (s + fl (col r))) rows
     \<and> \<bar>foldl (\<lambda>sum r. fl (sum + fl (col r))) (fl (s + fl (col r))) rows
          - ((S + col r) + sum_list (map col rows))\<bar>
         \<le> (e + E) + (2 * T + 3 * C) * roundoff * of_nat (length rows)"
  proof (rule Cons.IH)
    show "\<forall>r\<in>set rows. 0 \<le> col r \<and> col r \<le> C" using Cons.prems(1) by simp
    show "0 \<le> fl (s + fl (col r))" by (rule st(1))
    show "\<bar>fl (s + fl (col r)) - (S + col r)\<bar> \<le> e + E" by (rule st(2))
    show "0 \<le> S + col r" using Cons.prems(4) c by simp
    show "S + col r + C * of_nat (length rows) \<le> T"
      using p5 c unfolding L_def by linarith
    show "e + E + (2 * T + 3 * C) * roundoff * of_nat (length rows) \<le> T"
      using p6 unfolding L_def E_def by linarith
  qed
  moreover have "(2 * T + 3 * C) * roundoff * of_nat (length (r # rows)) = E * L + E"
    by (simp add: L_def E_def algebra_simps)
  moreover have "(2 * T + 3 * C) * roundoff * of_nat (length rows) = E * L"
    by (simp add: L_def E_def)
  ultimately show ?case
    by (simp add: add.assoc)
qed


lemma sum_list_le_length:
  fixes C :: rat
  shows "\<forall>r\<in>set rows. col r \<le> C \<Longrightarrow> sum_list (map col rows) \<le> C * of_nat (length rows)"
  by (induction rows) (simp_all add: algebra_simps add_mono)

lemma sum_list_hundredths:
  "\<forall>r\<in>set rows. col r = of_int (k r) / 100 \<Longrightarrow>
     sum_list (map col rows) = of_int (sum_list (map k rows)) / (100 :: rat)"
  by (induction rows) (simp_all add: add_divide_distrib)

lemma avg_near:
  assumes ne: "rows \<noteq> []" and len: "length rows \<le> 100000"
    and cols: "\<forall>r\<in>set rows. \<exists>k. col r = of_int k / 100 \<and> 0 \<le> k \<and> k \<le> 100000"
  shows "\<bar>toFixed2 (avg_rate col rows) - sum_list (map col rows) / of_nat (length rows)\<bar>
           \<le> 1 / 200"
proof -
  define L :: rat where "L = of_nat (length rows)"
  define sN where "sN = foldl (\<lambda>sum r. fl (sum + fl (col r))) 0 rows"
  define Sm where "Sm = sum_list (map col rows)"
  define E where "E = (2 * (1000 * L) + 3 * 1000) * roundoff"
  define m where "m = fl (sN / L)"
  define N where "N = \<lfloor>m * 100 + 1 / 2\<rfloor>"
  define kf where "kf = (\<lambda>r. \<lfloor>col r * 100\<rfloor>)"
  define K where "K = sum_list (map kf rows)"
  have L1: "1 \<le> L" using ne by (cases rows) (simp_all add: L_def)
  have L2: "L \<le> 100000" using len by (simp add: L_def)
  have L0: "0 < L" using L1 by simp
  have r0: "0 < roundoff" by (rule roundoff_bounds)
  have range: "\<forall>r\<in>set rows. 0 \<le> col r \<and> col r \<le> 1000"
  proof
    fix r assume "r \<in> set rows"
    with cols obtain k where "col r = of_int k / 100" "0 \<le> k" "k \<le> 100000" by blast
    then show "0 \<le> col r \<and> col r \<le> 1000" by simp
  qed
  have hund: "\<forall>r\<in>set rows. col r = of_int (kf r) / 100"
  proof
    fix r assume "r \<in> set rows"
    with cols obtain k where "col r = of_int k / 100" by blast
    then show "col r = of_int (kf r) / 100" by (simp add: kf_def)
  qed
  have SK: "Sm = of_int K / 100"
    unfolding Sm_def K_def using hund by (rule sum_list_hundredths)
  have Sm0: "0 \<le> Sm"
    unfolding Sm_def using range by (intro sum_list_nonneg) auto
  have SmT: "Sm \<le> 1000 * L"
    unfolding Sm_def L_def using range by (intro sum_list_le_length) simp
  have Eb: "E \<le> 200003000 * roundoff"
  proof -
    have "2 * (1000 * L) + 3 * 1000 \<le> 200003000" using L2 by simp
    then show ?thesis unfolding E_def using r0 by (intro mult_right_mono) simp_all
  qed
  have E0: "0 \<le> E" using L0 r0 by (simp add: E_def)
  have E1: "E \<le> 1000"
    using Eb by (simp add: roundoff_def)
  have EL: "E * L \<le> 1000 * L"
    using E1 L0 by (intro mult_right_mono) simp_all
  have "0 \<le> sN \<and> \<bar>sN - (0 + Sm)\<bar> \<le> 0 + (2 * (1000 * L) + 3 * 1000) * roundoff * L"
    unfolding sN_def Sm_def L_def
  proof (rule sum_fold_err)
    show "\<forall>r\<in>set rows. 0 \<le> col r \<and> col r \<le> 1000" by (rule range)
    show "0 + (2 * (1000 * rat_of_nat (length rows)) + 3 * 1000) * roundoff
        * rat_of_nat (length rows) \<le> 1000 * rat_of_nat (length rows)"
      using EL by (simp add: E_def L_def)
  qed simp_all
  then have s0: "0 \<le> sN" and se: "\<bar>sN - Sm\<bar> \<le> E * L"
    by (simp_all add: E_def)
  have sb: "sN / L \<le> 2000"
  proof -
    have "sN \<le> 2000 * L" using se SmT EL by linarith
    then show ?thesis using L0 by (simp add: pos_divide_le_eq)
  qed
  have q0: "0 \<le> sN / L" using s0 L0 by simp
  have m0: "0 \<le> m" unfolding m_def using q0 by (rule fl_nonneg)
  have me: "\<bar>m - sN / L\<bar> \<le> 2000 * roundoff"
    unfolding m_def using q0 sb by (rule fl_err_le)
  have qe: "\<bar>sN / L - Sm / L\<bar> \<le> E"
  proof -
    have "\<bar>sN / L - Sm / L\<bar> = \<bar>sN - Sm\<bar> / L"
      using L0 by (simp add: diff_divide_distrib [symmetric] abs_divide abs_of_pos)
    also have "\<dots> \<le> E" using se L0 by (simp add: pos_divide_le_eq)
    finally show ?thesis .
  qed
  have tot: "\<bar>m - Sm / L\<bar> \<le> 200005000 * roundoff"
    using me qe Eb by linarith
  have avg: "avg_rate col rows = m"
    using ne by (simp add: avg_rate_def m_def sN_def L_def)
  have res: "toFixed2 (avg_rate col rows) = of_int N / 100"
    using m0 by (simp add: avg toFixed2_def N_def not_less)
  have n_pos: "0 < int (length rows)" using ne by simp
  have Ln: "of_int (int (length rows)) = L" by (simp add: L_def)
  have X: "of_int K / L = 100 * (Sm / L)"
    by (simp add: SK)
  have close: "of_int (int (length rows)) * \<bar>m * 100 - of_int K / of_int (int (length rows))\<bar>
      < 1 / 2"
  proof -
    have "m * 100 - 100 * (Sm / L) = 100 * (m - Sm / L)" by simp
    then have "\<bar>m * 100 - 100 * (Sm / L)\<bar> = \<bar>100 * (m - Sm / L)\<bar>" by (simp only:)
    also have "\<dots> = 100 * \<bar>m - Sm / L\<bar>" by (simp only: abs_mult abs_numeral)
    also have "\<dots> \<le> 20000500000 * roundoff" using tot by simp
    finally have "L * \<bar>m * 100 - 100 * (Sm / L)\<bar> \<le> 100000 * (20000500000 * roundoff)"
      using L2 L0 r0 by (intro mult_mono) simp_all
    also have "\<dots> < 1 / 2" by (simp add: roundoff_def)
    finally show ?thesis by (simp only: Ln X)
  qed
  have "of_int N \<le> m * 100 + 1 / 2" "m * 100 + 1 / 2 < of_int N + 1"
    unfolding N_def by linarith+
  from nearest_of_close [OF n_pos this close]
  have "\<bar>of_int N - 100 * (Sm / L)\<bar> \<le> (1 / 2 :: rat)"
    by (simp only: Ln X)
  moreover have "of_int N / 100 - Sm / L = (of_int N - 100 * (Sm / L)) / (100 :: rat)"
    by (simp add: diff_divide_distrib)
  ultimately have "\<bar>of_int N / 100 - Sm / L\<bar> \<le> (1 / 2) / (100 :: rat)"
    by (simp only: abs_divide abs_numeral divide_right_mono zero_le_numeral)
  then show ?thesis
    by (simp add: res Sm_def L_def)
qed



section \<open>The derived rates\<close>





section \<open>The averages of the overview\<close>

lemma GET_analytics_Inr:
  assumes "q_tenantId q = Some tenantId" and "truthy tenantId"
    and "tenantUser d tenantId uid \<noteq> None"
    and "rows = order_desc (\<lambda>r. of_nat (date r))
           [r \<leftarrow> post_analytics d.
              matches tenantId (q_startDate q) (q_endDate q) (q_platform q) r]"
  shows "GET_analytics d (Some uid) q False =
     Inr \<lparr>ov_totals = foldl add_totals zero_totals rows,
          avg_engagement_rate = toFixed2 (avg_rate engagement_rate rows),
          avg_click_through_rate = toFixed2 (avg_rate click_through_rate rows),
          by_platform = foldl group_step [] rows, records = rows\<rparr>"
  using assms by (simp add: GET_analytics_def Let_def)

lemma uneven_example:
  "map_sum id avg_engagement_rate (GET_analytics uneven_store (Some ''user-a'') all_query False) =
     Inr 50
   \<and> weighted_rate (\<lambda>r. likes r + comments r + shares r) (post_analytics uneven_store) = 1"
  by code_simp

text \<open>
  C7, as the code has it. For a non-empty set of matched rows the two averages are the
  per-row means of \<open>engagement_rate\<close> and \<open>click_through_rate\<close>, summed in the order of
  the query and divided by the number of rows in binary64, then rounded by \<open>toFixed(2)\<close>.
  For up to 100000 rows with rates between 0 and 1000 each average lies within 0.005 of
  the exact arithmetic mean of the rows' rates: a nearest two-decimal value, at a tie not
  always the upper one. Every row weighs the same whatever its impressions: for one like
  on one impression and no like on 99 impressions the average is 50, where the rate
  recomputed from the summed counters would be 1.
\<close>

theorem overview_averages:
  assumes "q_tenantId q = Some tenantId" and "truthy tenantId"
    and "tenantUser d tenantId uid \<noteq> None"
    and "rows = order_desc (\<lambda>r. of_nat (date r))
           [r \<leftarrow> post_analytics d.
              matches tenantId (q_startDate q) (q_endDate q) (q_platform q) r]"
    and "rows \<noteq> []" and "length rows \<le> 100000"
    and "\<forall>r\<in>set rows. \<exists>k. engagement_rate r = of_int k / 100 \<and> 0 \<le> k \<and> k \<le> 100000"
    and "\<forall>r\<in>set rows. \<exists>k. click_through_rate r = of_int k / 100 \<and> 0 \<le> k \<and> k \<le> 100000"
  shows "(\<exists>ov. GET_analytics d (Some uid) q False = Inr ov \<and> records ov = rows
       \<and> avg_engagement_rate ov =
           toFixed2 (fl (foldl (\<lambda>sum r. fl (sum + fl (engagement_rate r))) 0 rows
                         / of_nat (length rows)))
       \<and> avg_click_through_rate ov =
           toFixed2 (fl (foldl (\<lambda>sum r. fl (sum + fl (click_through_rate r))) 0 rows
                         / of_nat (length rows)))
       \<and> \<bar>avg_engagement_rate ov - sum_list (map engagement_rate rows) / of_nat (length rows)\<bar>
           \<le> 1 / 200
       \<and> \<bar>avg_click_through_rate ov
            - sum_list (map click_through_rate rows) / of_nat (length rows)\<bar> \<le> 1 / 200)
     \<and> map_sum id avg_engagement_rate
         (GET_analytics uneven_store (Some ''user-a'') all_query False) = Inr 50
     \<and> weighted_rate (\<lambda>r. likes r + comments r + shares r) (post_analytics uneven_store) = 1"
proof -
  have "avg_rate col rows =
      fl (foldl (\<lambda>sum r. fl (sum + fl (col r))) 0 rows / of_nat (length rows))" for col
    using assms(5) by (simp add: avg_rate_def)
  then show ?thesis
    using GET_analytics_Inr [OF assms(1-4)] avg_near [OF assms(5,6,7)] avg_near [OF assms(5,6,8)]
      uneven_example
    by simp
qed

theorem overview_averages_witness:
  "\<exists>ov. GET_analytics uneven_store (Some ''user-a'') all_query False = Inr ov
     \<and> \<bar>avg_engagement_rate ov - 50\<bar> \<le> 1 / 200
     \<and> \<bar>avg_click_through_rate ov - 0\<bar> \<le> 1 / 200"
proof -
  let ?rows = "[flat_row ''1'' 1 1 100, flat_row ''2'' 0 99 0]"
  have 1: "q_tenantId all_query = Some tenant_a" by (simp add: all_query_def)
  have 2: "truthy tenant_a" by (simp add: truthy_def tenant_a_def)
  have 3: "tenantUser uneven_store tenant_a ''user-a'' \<noteq> None"
    by (simp add: tenantUser_def uneven_store_def store_def tenant_a_def tenant_b_def)
  have 4: "?rows = order_desc (\<lambda>r. of_nat (date r))
           [r \<leftarrow> post_analytics uneven_store.
              matches tenant_a (q_startDate all_query) (q_endDate all_query)
                (q_platform all_query) r]"
    by (simp add: uneven_store_def store_def all_query_def matches_def flat_row_def row_def
        new_row_def order_desc_def)
  have 5: "?rows \<noteq> []" by simp
  have 6: "length ?rows \<le> 100000" by simp
  have 7: "\<forall>r\<in>set ?rows. \<exists>k. engagement_rate r = of_int k / 100 \<and> 0 \<le> k \<and> k \<le> 100000"
  proof -
    have "(100 :: rat) = of_int 10000 / 100 \<and> (0 :: int) \<le> 10000 \<and> (10000 :: int) \<le> 100000"
      by simp
    moreover have "(0 :: rat) = of_int 0 / 100 \<and> (0 :: int) \<le> 0 \<and> (0 :: int) \<le> 100000"
      by simp
    ultimately show ?thesis
      by (simp add: flat_row_def row_def new_row_def)
  qed
  have 8: "\<forall>r\<in>set ?rows. \<exists>k. click_through_rate r = of_int k / 100 \<and> 0 \<le> k \<and> k \<le> 100000"
  proof -
    have "(0 :: rat) = of_int 0 / 100 \<and> (0 :: int) \<le> 0 \<and> (0 :: int) \<le> 100000"
      by simp
    then show ?thesis
      by (simp add: flat_row_def row_def new_row_def)
  qed
  have s1: "sum_list (map engagement_rate ?rows) / of_nat (length ?rows) = 50"
    by (simp add: flat_row_def row_def new_row_def)
  have s2: "sum_list (map click_through_rate ?rows) / of_nat (length ?rows) = 0"
    by (simp add: flat_row_def row_def new_row_def)
  from overview_averages [OF 1 2 3 4 5 6 7 8] obtain ov where
    "GET_analytics uneven_store (Some ''user-a'') all_query False = Inr ov"
    "\<bar>avg_engagement_rate ov - sum_list (map engagement_rate ?rows) / of_nat (length ?rows)\<bar>
           \<le> 1 / 200"
    "\<bar>avg_click_through_rate ov
            - sum_list (map click_through_rate ?rows) / of_nat (length ?rows)\<bar> \<le> 1 / 200"
    by blast
  then show ?thesis
    unfolding s1 s2 by blast
qed

text \<open>
  The claim as worded, the exact mean rounded to two decimal places, fails at a tie:
  rows with rates 0.01 and 0.02 give 0.01, because the binary64 mean lies just below
  0.015, whose rounding is 0.02.
\<close>

theorem mean_rounding_counterexample:
  "map_sum id avg_engagement_rate (GET_analytics halves_store (Some ''user-a'') all_query False) =
     Inr (1 / 100)
   \<and> spec_mean engagement_rate (post_analytics halves_store) = 2 / 100"
  by code_simp

end
